theory Spec2Isabelle
  imports Main "HOL-Library.Word"
begin

unbundle bit_operations_syntax

section \<open>Block storage engine (libs/server/BlocksDB.cpp)\<close>

text \<open>
  A shallow embedding of \<^verbatim>\<open>Blocks::DB\<close>, \<^verbatim>\<open>Blocks::Index\<close> and
  \<^verbatim>\<open>Blocks::DBPrivate\<close>. Pointers to \<^verbatim>\<open>CBlockIndex\<close> objects are addresses
  (natural numbers) into a heap; a nullable pointer is an \<open>option\<close>. Every
  \<^verbatim>\<open>assert\<close> and every \<^verbatim>\<open>throw\<close> of the source is a value of type \<open>error\<close>;
  a loop that follows \<^verbatim>\<open>pprev\<close> pointers is a \<open>partial_function\<close> in the option
  monad, so that a walk that never ends is the value \<open>None\<close>.
\<close>

type_synonym byte = "8 word"
type_synonym uint256 = "byte list"
type_synonym ptr = nat

datatype error =
    AssertionFailed
  | NullDereference
  | DatabaseCorruption
  | FailedToMemmap
  | PositionOutsideOfFile
  | BlockBiggerThanFile
  | ChecksumMismatch
  | FailedToOpenFile
  | FileNotWritable
  | FailedToOpenResized
  | ResizedNotWritable
  | MemoryFault
  | FailedToReadRow
  | FilesystemError

subsection \<open>Header records\<close>

text \<open>
  Modelled from the spec: the class \<^verbatim>\<open>CBlockIndex\<close> is declared in chain.h, which is
  not among the sources. The fields are the attributes of the spec's HeaderRecord
  under the names BlocksDB.cpp uses for them; \<open>phashBlock\<close> is the pointer to the key
  of the record's entry in the index map (the position of that entry).
\<close>

record CBlockIndex =
  phashBlock :: "nat option"
  pprev :: "ptr option"
  pskip :: "ptr option"
  nHeight :: int
  nFile :: int
  nDataPos :: nat
  nUndoPos :: nat
  nVersion :: int
  hashMerkleRoot :: uint256
  nTime :: nat
  nBits :: nat
  nNonce :: nat
  nStatus :: "32 word"
  nTx :: nat
  nChainWork :: nat

type_synonym heap = "ptr \<Rightarrow> CBlockIndex"

text \<open>
  Modelled from the spec: the status flags of the spec's data model (the enum
  \<^verbatim>\<open>BlockStatus\<close> is declared in chain.h). \<open>FAILED_MASK = FAILED_VALID | FAILED_CHILD\<close>.
\<close>

definition BLOCK_VALID_TRANSACTIONS :: "32 word" where
  "BLOCK_VALID_TRANSACTIONS = 3"

definition BLOCK_VALID_MASK :: "32 word" where
  "BLOCK_VALID_MASK = 7"

definition BLOCK_HAVE_DATA :: "32 word" where
  "BLOCK_HAVE_DATA = 8"

definition BLOCK_FAILED_VALID :: "32 word" where
  "BLOCK_FAILED_VALID = 32"

definition BLOCK_FAILED_CHILD :: "32 word" where
  "BLOCK_FAILED_CHILD = 64"

definition BLOCK_FAILED_MASK :: "32 word" where
  "BLOCK_FAILED_MASK = BLOCK_FAILED_VALID OR BLOCK_FAILED_CHILD"

definition failed :: "heap \<Rightarrow> ptr \<Rightarrow> bool" where
  "failed h p = (nStatus (h p) AND BLOCK_FAILED_MASK \<noteq> 0)"

text \<open>
  Modelled from the spec: \<^verbatim>\<open>CBlockIndex::IsValid()\<close> (chain.h): no failure flag is
  set and the validity level has reached the default level \<open>VALID_TRANSACTIONS\<close>.
\<close>

definition IsValid :: "heap \<Rightarrow> ptr \<Rightarrow> bool" where
  "IsValid h p = (\<not> failed h p \<and> BLOCK_VALID_TRANSACTIONS \<le> nStatus (h p) AND BLOCK_VALID_MASK)"

text \<open>
  Modelled from the spec: \<^verbatim>\<open>CBlockIndex::GetAncestor\<close> (chain.cpp is not among the
  sources). The ancestor at a height is found by following \<open>prev\<close> for the difference
  of the heights (the skip pointers only shorten the walk); it is null when the
  height is negative or above the record's own, or when the chain of parents ends
  before the height is reached.
\<close>

fun walk_prev :: "heap \<Rightarrow> nat \<Rightarrow> ptr \<Rightarrow> ptr option" where
  "walk_prev h 0 p = Some p"
| "walk_prev h (Suc n) p = (case pprev (h p) of None \<Rightarrow> None | Some q \<Rightarrow> walk_prev h n q)"

definition GetAncestor :: "heap \<Rightarrow> ptr \<Rightarrow> int \<Rightarrow> ptr option" where
  "GetAncestor h p height =
     (if nHeight (h p) < height \<or> height < 0 then None
      else walk_prev h (nat (nHeight (h p) - height)) p)"

subsection \<open>The header chain and its tips\<close>

text \<open>
  Modelled from the spec: \<^verbatim>\<open>CChain\<close> (chain.h) is the main chain, given by its tip;
  the ancestors of the tip are reached through \<open>prev\<close>. \<open>Contains\<close> compares the
  chain's entry at the record's height with the record; the height of the empty
  chain is \<open>-1\<close>.
\<close>

type_synonym CChain = "ptr option"

definition Contains :: "heap \<Rightarrow> CChain \<Rightarrow> ptr \<Rightarrow> bool" where
  "Contains h c p = (case c of None \<Rightarrow> False | Some t \<Rightarrow> GetAncestor h t (nHeight (h p)) = Some p)"

definition Height :: "heap \<Rightarrow> CChain \<Rightarrow> int" where
  "Height h c = (case c of None \<Rightarrow> - 1 | Some t \<Rightarrow> nHeight (h t))"

record ChainSet =
  headersChain :: CChain
  headerChainTips :: "ptr list"
  pindexBestHeader :: "ptr option"

definition emptyChainSet :: ChainSet where
  "emptyChainSet = \<lparr>headersChain = None, headerChainTips = [], pindexBestHeader = None\<rparr>"

text \<open>
  \<^verbatim>\<open>while (validPrev->nStatus & BLOCK_FAILED_MASK) validPrev = validPrev->pprev;\<close>
  The loop dereferences a null pointer when it walks past a failed record that has
  no parent.
\<close>

partial_function (option) skipFailed :: "heap \<Rightarrow> ptr option \<Rightarrow> (error + ptr) option" where
  "skipFailed h p =
     (case p of
        None \<Rightarrow> Some (Inl NullDereference)
      | Some q \<Rightarrow> if failed h q then skipFailed h (pprev (h q)) else Some (Inr q))"

declare skipFailed.simps [code]

text \<open>
  The first loop of \<^verbatim>\<open>appendHeader\<close>: the first tip that is the ancestor of the block
  at the tip's height, with the tips before and after it.
\<close>

fun extendedTip :: "heap \<Rightarrow> ptr \<Rightarrow> ptr list \<Rightarrow> (ptr list \<times> ptr \<times> ptr list) option" where
  "extendedTip h block [] = None"
| "extendedTip h block (tip # rest) =
     (if GetAncestor h block (nHeight (h tip)) = Some tip then Some ([], tip, rest)
      else (case extendedTip h block rest of
              None \<Rightarrow> None
            | Some (before, t, after) \<Rightarrow> Some (tip # before, t, after)))"

text \<open>
  The second loop of \<^verbatim>\<open>appendHeader\<close>, over the tips that are still to be visited.
  Its state is the tips kept so far, the main chain, \<open>validPrev\<close> and the flags
  \<open>modified\<close>, \<open>alreadyContains\<close> and \<open>modifyingMainChain\<close>. \<open>None\<close> is the
  \<^verbatim>\<open>return false\<close> in the middle of the loop.
\<close>

record scan =
  kept :: "ptr list"
  chain :: CChain
  validPrev :: ptr
  modified :: bool
  alreadyContains :: bool
  modifyingMainChain :: bool

fun scanTips :: "heap \<Rightarrow> ptr \<Rightarrow> bool \<Rightarrow> ptr list \<Rightarrow> scan \<Rightarrow> scan option" where
  "scanTips h block valid [] s = Some s"
| "scanTips h block valid (i # rest) s =
     (if GetAncestor h i (nHeight (h block)) = Some block then
        (if valid then None
         else
           let mainChain = Contains h (chain s) i in
           scanTips h block valid rest
             (s\<lparr>modified := True,
                chain := (if mainChain then Some (validPrev s) else chain s),
                modifyingMainChain := (modifyingMainChain s \<or> mainChain)\<rparr>))
      else
        (if GetAncestor h i (nHeight (h (validPrev s))) = Some (validPrev s) then
           scanTips h block valid rest
             (s\<lparr>kept := kept s @ [i],
                alreadyContains := True,
                validPrev := (if nChainWork (h (validPrev s)) < nChainWork (h i) then i
                              else validPrev s)\<rparr>)
         else scanTips h block valid rest (s\<lparr>kept := kept s @ [i]\<rparr>)))"

text \<open>
  The end of \<^verbatim>\<open>appendHeader\<close>, after the loops: the two assertions and the
  comparison of the chain work of the main tip with that of \<open>validPrev\<close>.
\<close>

definition finishAppend ::
  "heap \<Rightarrow> ptr \<Rightarrow> ptr \<Rightarrow> bool \<Rightarrow> ChainSet \<Rightarrow> error + (bool \<times> ChainSet)" where
  "finishAppend h block vp modMain cs =
     (case headersChain cs of
        None \<Rightarrow> Inl AssertionFailed
      | Some tip \<Rightarrow>
          if nChainWork (h tip) < nChainWork (h vp)
          then Inr (True, cs\<lparr>headersChain := Some vp, pindexBestHeader := Some block\<rparr>)
          else Inr (modMain, cs))"

definition appendHeader ::
  "heap \<Rightarrow> ChainSet \<Rightarrow> ptr option \<Rightarrow> (error + (bool \<times> ChainSet)) option" where
  "appendHeader h cs blockp =
     (case blockp of
        None \<Rightarrow> Some (Inl AssertionFailed)
      | Some block \<Rightarrow>
          if phashBlock (h block) = None then Some (Inl AssertionFailed)
          else
            let valid = \<not> failed h block in
            if \<not> valid \<and> pprev (h block) = None then Some (Inl AssertionFailed)
            else if valid \<and> Contains h (headersChain cs) block then Some (Inr (False, cs))
            else
              (case skipFailed h (if valid then Some block else pprev (h block)) of
                 None \<Rightarrow> None
               | Some (Inl e) \<Rightarrow> Some (Inl e)
               | Some (Inr vp) \<Rightarrow>
                   (case extendedTip h block (headerChainTips cs) of
                      Some (before, tip, after) \<Rightarrow>
                        let cs1 = cs\<lparr>headerChainTips := before @ after @ [vp]\<rparr> in
                        if headersChain cs = Some tip
                        then Some (Inr (True, cs1\<lparr>headersChain := Some vp,
                                                  pindexBestHeader := Some vp\<rparr>))
                        else Some (finishAppend h block vp False cs1)
                    | None \<Rightarrow>
                        (case scanTips h block valid (headerChainTips cs)
                                \<lparr>kept = [], chain = headersChain cs, validPrev = vp,
                                 modified = False, alreadyContains = False,
                                 modifyingMainChain = False\<rparr> of
                           None \<Rightarrow> Some (Inr (False, cs))
                         | Some s \<Rightarrow>
                             let tips1 = (if modified s \<and> \<not> alreadyContains s
                                          then kept s @ [validPrev s] else kept s);
                                 cs1 = cs\<lparr>headersChain := chain s, headerChainTips := tips1\<rparr>
                             in
                             if valid then
                               (let cs2 = cs1\<lparr>headerChainTips := tips1 @ [block]\<rparr> in
                                if Height h (headersChain cs2) = - 1
                                then Some (Inr (True, cs2\<lparr>headersChain := Some block,
                                                          pindexBestHeader := Some block\<rparr>))
                                else Some (finishAppend h block (validPrev s)
                                             (modifyingMainChain s) cs2))
                             else Some (finishAppend h block (validPrev s)
                                          (modifyingMainChain s) cs1)))))"


text \<open>A sequence of calls on one heap; it stops at the first call that does not return.\<close>

fun appendHeaders :: "heap \<Rightarrow> ChainSet \<Rightarrow> ptr list \<Rightarrow> (error + ChainSet) option" where
  "appendHeaders h cs [] = Some (Inr cs)"
| "appendHeaders h cs (b # bs) =
     (case appendHeader h cs (Some b) of
        None \<Rightarrow> None
      | Some (Inl e) \<Rightarrow> Some (Inl e)
      | Some (Inr (r, cs')) \<Rightarrow> appendHeaders h cs' bs)"

subsection \<open>The header index (Blocks::Index)\<close>

text \<open>
  \<^verbatim>\<open>indexMap\<close> maps a hash to the pointer of its record. It is modelled as a list of
  entries with distinct keys, new entries at the end; the address of an entry's key
  is the position of the entry, which never changes while the map only grows.
\<close>

type_synonym BlockMap = "(uint256 \<times> ptr) list"

fun find_entry :: "BlockMap \<Rightarrow> uint256 \<Rightarrow> nat option" where
  "find_entry [] hash = None"
| "find_entry (e # m) hash =
     (if fst e = hash then Some 0 else map_option Suc (find_entry m hash))"

definition Index_empty :: "BlockMap \<Rightarrow> bool" where
  "Index_empty m = (m = [])"

definition Index_insert :: "BlockMap \<Rightarrow> uint256 \<Rightarrow> ptr option \<Rightarrow> error + (BlockMap \<times> nat)" where
  "Index_insert m hash index =
     (case index of
        None \<Rightarrow> Inl AssertionFailed
      | Some p \<Rightarrow>
          (case find_entry m hash of
             Some k \<Rightarrow> Inr (m, k)
           | None \<Rightarrow> Inr (m @ [(hash, p)], length m)))"

definition Index_exists :: "BlockMap \<Rightarrow> uint256 \<Rightarrow> bool" where
  "Index_exists m hash = (find_entry m hash \<noteq> None)"

definition Index_get :: "BlockMap \<Rightarrow> uint256 \<Rightarrow> ptr option" where
  "Index_get m hash = (case find_entry m hash of None \<Rightarrow> None | Some k \<Rightarrow> Some (snd (m ! k)))"

definition Index_size :: "BlockMap \<Rightarrow> int" where
  "Index_size m = int (length m)"

text \<open>
  \<^verbatim>\<open>reconsiderBlock\<close>. \<^verbatim>\<open>MarkIndexUnsaved\<close> (main.cpp) is modelled from the spec: it
  marks the record dirty, so that it is persisted again; the dirty records are a set.
\<close>

definition clearFailed :: "heap \<Rightarrow> ptr \<Rightarrow> heap" where
  "clearFailed h p = h(p := (h p)\<lparr>nStatus := nStatus (h p) AND NOT BLOCK_FAILED_MASK\<rparr>)"

fun reconsiderDescendants ::
  "ptr \<Rightarrow> int \<Rightarrow> BlockMap \<Rightarrow> heap \<times> ptr set \<Rightarrow> heap \<times> ptr set" where
  "reconsiderDescendants pindex height [] (h, dirty) = (h, dirty)"
| "reconsiderDescendants pindex height (it # m) (h, dirty) =
     (if \<not> IsValid h (snd it) \<and> GetAncestor h (snd it) height = Some pindex
      then reconsiderDescendants pindex height m (clearFailed h (snd it), insert (snd it) dirty)
      else reconsiderDescendants pindex height m (h, dirty))"

partial_function (option) reconsiderAncestors ::
  "heap \<Rightarrow> ptr set \<Rightarrow> ptr option \<Rightarrow> (heap \<times> ptr set) option" where
  "reconsiderAncestors h dirty pindex =
     (case pindex of
        None \<Rightarrow> Some (h, dirty)
      | Some p \<Rightarrow>
          if failed h p
          then reconsiderAncestors (clearFailed h p) (insert p dirty) (pprev (clearFailed h p p))
          else reconsiderAncestors h dirty (pprev (h p)))"

declare reconsiderAncestors.simps [code]

definition reconsiderBlock ::
  "BlockMap \<Rightarrow> heap \<Rightarrow> ptr set \<Rightarrow> ptr \<Rightarrow> (bool \<times> heap \<times> ptr set) option" where
  "reconsiderBlock m h dirty pindex =
     (let (h1, dirty1) = reconsiderDescendants pindex (nHeight (h pindex)) m (h, dirty)
      in case reconsiderAncestors h1 dirty1 (Some pindex) of
           None \<Rightarrow> None
         | Some (h2, dirty2) \<Rightarrow> Some (True, h2, dirty2))"

text \<open>
  The ancestors of a record, the record itself included: what the \<open>prev\<close> pointers
  reach from it.
\<close>

definition ancestorsOf :: "heap \<Rightarrow> ptr \<Rightarrow> ptr set" where
  "ancestorsOf h r = {p. \<exists>k. walk_prev h k r = Some p}"

subsection \<open>Data files (Blocks::DBPrivate)\<close>

text \<open>
  Modelled from the spec: the constants \<^verbatim>\<open>MAX_BLOCKFILE_SIZE\<close> (128 MiB),
  \<^verbatim>\<open>BLOCKFILE_CHUNK_SIZE\<close> (16 MiB) and \<^verbatim>\<open>UNDOFILE_CHUNK_SIZE\<close> (1 MiB) are declared
  in main.h, which is not among the sources.
\<close>

definition MAX_BLOCKFILE_SIZE :: nat where
  "MAX_BLOCKFILE_SIZE = 134217728"

definition BLOCKFILE_CHUNK_SIZE :: nat where
  "BLOCKFILE_CHUNK_SIZE = 16777216"

definition UNDOFILE_CHUNK_SIZE :: nat where
  "UNDOFILE_CHUNK_SIZE = 1048576"

datatype BlockType = ForwardBlock | RevertBlock

text \<open>
  Modelled from the spec: \<^verbatim>\<open>CDiskBlockPos\<close> and \<^verbatim>\<open>CBlockFileInfo\<close> (chain.h). A
  position is a file number and a byte offset; the per-file record counts the
  blocks and the bytes used in the blk and the rev file, and \<^verbatim>\<open>AddBlock()\<close> counts one
  more block. File numbers only grow from 0 and are natural numbers here. The
  offset and the sizes are 32-bit unsigned in the source: the sums the source
  computes in that type are reduced by \<open>u32\<close>.
\<close>

record CDiskBlockPos =
  nFile :: nat
  nPos :: nat

record CBlockFileInfo =
  nBlocks :: nat
  nSize :: nat
  nUndoSize :: nat

definition nullFileInfo :: CBlockFileInfo where
  "nullFileInfo = \<lparr>nBlocks = 0, nSize = 0, nUndoSize = 0\<rparr>"

definition u32 :: "nat \<Rightarrow> nat" where
  "u32 n = n mod 4294967296"

text \<open>
  A file in the blocks directory: its size, its bytes by offset (zero where nothing
  was written) and whether the medium lets it be opened for writing. The files
  \<^verbatim>\<open>blkNNNNN.dat\<close> and \<^verbatim>\<open>revNNNNN.dat\<close> are found by type and number; the search
  through the additional block directories is not modelled.
\<close>

record DiskFile =
  fsize :: nat
  fdata :: "nat \<Rightarrow> byte"
  readonly :: bool

type_synonym disk = "BlockType \<times> nat \<Rightarrow> DiskFile option"

definition readBytes :: "DiskFile \<Rightarrow> nat \<Rightarrow> nat \<Rightarrow> byte list" where
  "readBytes f off n = map (fdata f) [off..<off + n]"

definition memcpy :: "DiskFile \<Rightarrow> nat \<Rightarrow> byte list \<Rightarrow> DiskFile" where
  "memcpy f off bs =
     f\<lparr>fdata := (\<lambda>i. if off \<le> i \<and> i < off + length bs then bs ! (i - off) else fdata f i)\<rparr>"

definition resize_file :: "DiskFile \<Rightarrow> nat \<Rightarrow> DiskFile" where
  "resize_file f n = f\<lparr>fsize := n, fdata := (\<lambda>i. if i < min (fsize f) n then fdata f i else 0)\<rparr>"

definition htole32 :: "nat \<Rightarrow> byte list" where
  "htole32 n = [of_nat n, of_nat (n div 256), of_nat (n div 65536), of_nat (n div 16777216)]"

definition le32toh :: "byte list \<Rightarrow> nat" where
  "le32toh bs = unat (bs ! 0) + 256 * unat (bs ! 1) + 65536 * unat (bs ! 2) + 16777216 * unat (bs ! 3)"

text \<open>
  A file is mapped in whole pages, of 4096 bytes here. A read through a mapping gives
  the bytes of the file and zeros in the rest of its last page; a read that reaches
  beyond the last page of the mapping, or beyond the last page of a file that is now
  shorter than its mapping, is a memory fault (\<open>None\<close>). \<open>mappedSize\<close> is the size the
  file had when it was mapped.
\<close>

definition pageEnd :: "nat \<Rightarrow> nat" where
  "pageEnd n = (n + 4095) div 4096 * 4096"

definition viewBytes :: "DiskFile \<Rightarrow> nat \<Rightarrow> nat \<Rightarrow> byte list" where
  "viewBytes f off n = map (\<lambda>i. if i < fsize f then fdata f i else 0) [off..<off + n]"

definition readView :: "nat \<Rightarrow> DiskFile \<Rightarrow> nat \<Rightarrow> nat \<Rightarrow> byte list option" where
  "readView mappedSize f off n =
     (if min (pageEnd mappedSize) (pageEnd (fsize f)) < off + n then None
      else Some (viewBytes f off n))"

text \<open>
  A slot of the file mapper holds the \<^verbatim>\<open>DataFile\<close> of a live mapping: the size the
  file had when it was mapped and whether it was opened read-write. A slot is emptied
  by \<^verbatim>\<open>fileHasGrown\<close> and \<^verbatim>\<open>revertFileHasGrown\<close>; the views handed out are taken to
  be held by their users, so that no mapping is released in between. A mapping
  shares its bytes with the file, so reads and writes through it go to the file.
  The lines written with \<^verbatim>\<open>logDebug\<close> are kept in a list.
\<close>

record DataFile =
  filesize :: nat
  readwrite :: bool

datatype logline = StartingNewFile BlockType nat | NeedsToBeResized BlockType nat

record DBPrivate =
  blocksDir :: disk
  datafiles :: "DataFile option list"
  revertDatafiles :: "DataFile option list"
  vinfoBlockFile :: "CBlockFileInfo list"
  nLastBlockFile :: nat
  setDirtyFileInfo :: "nat set"
  logDebug :: "logline list"

definition slots :: "DBPrivate \<Rightarrow> BlockType \<Rightarrow> DataFile option list" where
  "slots db type = (if type = ForwardBlock then datafiles db else revertDatafiles db)"

definition setSlots :: "DBPrivate \<Rightarrow> BlockType \<Rightarrow> DataFile option list \<Rightarrow> DBPrivate" where
  "setSlots db type l =
     (if type = ForwardBlock then db\<lparr>datafiles := l\<rparr> else db\<lparr>revertDatafiles := l\<rparr>)"

text \<open>
  \<^verbatim>\<open>mapFile\<close>: the result is the state and the \<^verbatim>\<open>DataFile\<close> of the mapping, or \<open>None\<close>
  for the null buffer; \<^verbatim>\<open>size_out\<close> is its \<open>filesize\<close> and \<^verbatim>\<open>isWritable\<close> its
  \<open>readwrite\<close>. Opening the mapped file fails, in both modes, when the file is
  missing and when it is empty (a mapping of length 0 is refused); the slot is then
  reset and the null buffer returned.
\<close>

definition mapFile :: "DBPrivate \<Rightarrow> nat \<Rightarrow> BlockType \<Rightarrow> DBPrivate \<times> DataFile option" where
  "mapFile db fileIndex type =
     (let list = slots db type;
          list1 = (if length list \<le> fileIndex
                   then list @ replicate (fileIndex + 10 - length list) None else list)
      in case list1 ! fileIndex of
           Some df \<Rightarrow> (setSlots db type list1, Some df)
         | None \<Rightarrow>
             (case blocksDir db (type, fileIndex) of
                None \<Rightarrow> (setSlots db type (list1[fileIndex := None]), None)
              | Some f \<Rightarrow>
                  if fsize f = 0 then (setSlots db type (list1[fileIndex := None]), None)
                  else
                    let df = \<lparr>filesize = fsize f,
                              readwrite = (if type = ForwardBlock \<and> fileIndex \<noteq> nLastBlockFile db
                                           then False else \<not> readonly f)\<rparr>
                    in (setSlots db type (list1[fileIndex := Some df]), Some df)))"

definition fileHasGrown :: "DBPrivate \<Rightarrow> nat \<Rightarrow> error + DBPrivate" where
  "fileHasGrown db fileIndex =
     (if fileIndex < length (datafiles db)
      then Inr (db\<lparr>datafiles := (datafiles db)[fileIndex := None]\<rparr>)
      else Inl AssertionFailed)"

definition revertFileHasGrown :: "DBPrivate \<Rightarrow> nat \<Rightarrow> error + DBPrivate" where
  "revertFileHasGrown db fileIndex =
     (if fileIndex < length (revertDatafiles db)
      then Inr (db\<lparr>revertDatafiles := (revertDatafiles db)[fileIndex := None]\<rparr>)
      else Inl AssertionFailed)"

text \<open>A view of a mapped file: \<^verbatim>\<open>Streaming::ConstBuffer\<close>, from \<open>bufBegin\<close> up to \<open>bufEnd\<close>.\<close>

record ConstBuffer =
  bufFile :: "BlockType \<times> nat"
  bufBegin :: nat
  bufEnd :: nat


text \<open>
  \<^verbatim>\<open>loadBlockFile\<close>: the whole blk file, or the invalid buffer (\<open>None\<close>) when the file
  cannot be mapped.
\<close>

definition loadBlockFile :: "DBPrivate \<Rightarrow> nat \<Rightarrow> DBPrivate \<times> ConstBuffer option" where
  "loadBlockFile db fileIndex =
     (case mapFile db fileIndex ForwardBlock of
        (db1, None) \<Rightarrow> (db1, None)
      | (db1, Some df) \<Rightarrow>
          (db1, Some \<lparr>bufFile = (ForwardBlock, fileIndex), bufBegin = 0, bufEnd = filesize df - 1\<rparr>))"

text \<open>
  \<^verbatim>\<open>loadBlock\<close>. The checksum is the hash of the block hash followed by the payload;
  the hash function \<open>H\<close> (\<^verbatim>\<open>CHashWriter\<close>, hash.h) is a parameter. The sum that is
  compared with the file size is computed in 32 bits. The length, the payload and the
  checksum are read through the mapping. No operation here removes a file; a mapping
  whose file is not in the directory has no bytes to read.
\<close>

definition loadBlock ::
  "(byte list \<Rightarrow> uint256) \<Rightarrow> DBPrivate \<Rightarrow> CDiskBlockPos \<Rightarrow> BlockType \<Rightarrow> uint256 option
     \<Rightarrow> error + (DBPrivate \<times> ConstBuffer)" where
  "loadBlock H db pos type blockHash =
     (if nPos pos < 4 then Inl DatabaseCorruption
      else
        (case mapFile db (nFile pos) type of
           (db1, None) \<Rightarrow> Inl FailedToMemmap
         | (db1, Some df) \<Rightarrow>
             if filesize df \<le> nPos pos then Inl PositionOutsideOfFile
             else
               (case blocksDir db1 (type, nFile pos) of
                  None \<Rightarrow> Inl MemoryFault
                | Some f \<Rightarrow>
                    (case readView (filesize df) f (nPos pos - 4) 4 of
                       None \<Rightarrow> Inl MemoryFault
                     | Some lengthBytes \<Rightarrow>
                         let blockSize = le32toh lengthBytes;
                             answer = \<lparr>bufFile = (type, nFile pos), bufBegin = nPos pos,
                                       bufEnd = nPos pos + blockSize\<rparr>
                         in
                         if filesize df
                              < u32 (nPos pos + blockSize + (if blockHash = None then 0 else 32))
                         then Inl BlockBiggerThanFile
                         else
                           (case blockHash of
                              None \<Rightarrow> Inr (db1, answer)
                            | Some hash \<Rightarrow>
                                if type = ForwardBlock then Inl AssertionFailed
                                else
                                  (case readView (filesize df) f (nPos pos) blockSize of
                                     None \<Rightarrow> Inl MemoryFault
                                   | Some payload \<Rightarrow>
                                       (case readView (filesize df) f (nPos pos + blockSize) 32 of
                                          None \<Rightarrow> Inl MemoryFault
                                        | Some hashChecksum \<Rightarrow>
                                            if hashChecksum = H (hash @ payload)
                                            then Inr (db1, answer)
                                            else Inl ChecksumMismatch)))))))"

text \<open>
  The part of \<^verbatim>\<open>writeBlock\<close> that creates the file: it is emptied and then resized.
\<close>

definition chunkSize :: "BlockType \<Rightarrow> nat" where
  "chunkSize type = (if type = ForwardBlock then BLOCKFILE_CHUNK_SIZE else UNDOFILE_CHUNK_SIZE)"

definition startNewFile :: "DBPrivate \<Rightarrow> BlockType \<Rightarrow> nat \<Rightarrow> nat \<Rightarrow> error + DBPrivate" where
  "startNewFile db type fileIndex blockSize =
     (let newFileSize = max (blockSize + 8) (chunkSize type);
          db1 = db\<lparr>logDebug := logDebug db @ [StartingNewFile type fileIndex]\<rparr>;
          created = Inr (db1\<lparr>blocksDir := (blocksDir db1)((type, fileIndex) \<mapsto>
                       \<lparr>fsize = newFileSize, fdata = (\<lambda>i. 0), readonly = False\<rparr>)\<rparr>)
      in case blocksDir db (type, fileIndex) of
           None \<Rightarrow> created
         | Some f \<Rightarrow> if readonly f then Inl FilesystemError else created)"

text \<open>
  The part of the loop of \<^verbatim>\<open>writeBlock\<close> that grows the file by one chunk: the slot is
  emptied, the file is resized and mapped again.
\<close>

definition growOnce :: "DBPrivate \<Rightarrow> nat \<Rightarrow> BlockType \<Rightarrow> nat \<Rightarrow> error + (DBPrivate \<times> nat)" where
  "growOnce db fileIndex type fileSize =
     (let newFileSize = fileSize + chunkSize type;
          db1 = db\<lparr>logDebug := logDebug db @ [NeedsToBeResized type fileIndex]\<rparr>
      in case (if type = ForwardBlock then fileHasGrown db1 fileIndex
               else revertFileHasGrown db1 fileIndex) of
           Inl e \<Rightarrow> Inl e
         | Inr db2 \<Rightarrow>
             (case blocksDir db2 (type, fileIndex) of
                None \<Rightarrow> Inl FilesystemError
              | Some f \<Rightarrow>
                  if readonly f then Inl FilesystemError
                  else
                    (case mapFile (db2\<lparr>blocksDir := (blocksDir db2)((type, fileIndex) \<mapsto>
                                      resize_file f newFileSize)\<rparr>) fileIndex type of
                       (db3, None) \<Rightarrow> Inl FailedToOpenResized
                     | (db3, Some df) \<Rightarrow>
                         if readwrite df then Inr (db3, filesize df)
                         else Inl ResizedNotWritable)))"

lemma growOnce_size:
  assumes "growOnce db fileIndex type fileSize = Inr (db1, fileSize1)"
  shows "fileSize1 = fileSize + chunkSize type"
proof (cases type)
  case ForwardBlock
  with assms show ?thesis
    by (auto simp: growOnce_def fileHasGrown_def mapFile_def slots_def setSlots_def
          resize_file_def Let_def split: if_splits option.splits sum.splits)
next
  case RevertBlock
  with assms show ?thesis
    by (auto simp: growOnce_def revertFileHasGrown_def mapFile_def slots_def setSlots_def
          resize_file_def Let_def split: if_splits option.splits sum.splits)
qed

lemma chunkSize_pos: "0 < chunkSize type"
  by (simp add: chunkSize_def BLOCKFILE_CHUNK_SIZE_def UNDOFILE_CHUNK_SIZE_def)

text \<open>
  \<^verbatim>\<open>while (*posInFile + blockSize + 8 + (useBlk ? 0 : 32) >= fileSize)\<close>: \<open>need\<close> is the
  left-hand side, which does not change in the loop.
\<close>

function growFile ::
  "DBPrivate \<Rightarrow> nat \<Rightarrow> BlockType \<Rightarrow> nat \<Rightarrow> nat \<Rightarrow> error + (DBPrivate \<times> nat)" where
  "growFile db fileIndex type need fileSize =
     (if fileSize \<le> need then
        (case growOnce db fileIndex type fileSize of
           Inl e \<Rightarrow> Inl e
         | Inr (db1, fileSize1) \<Rightarrow> growFile db1 fileIndex type need fileSize1)
      else Inr (db, fileSize))"
  by pat_completeness auto

termination growFile
proof (relation "measure (\<lambda>(db, fileIndex, type, need, fileSize). Suc need - fileSize)")
  show "wf (measure (\<lambda>(db, fileIndex, type, need, fileSize). Suc need - fileSize))"
    by simp
next
  fix db fileIndex type need fileSize x2 db1 fileSize1
  assume "fileSize \<le> need"
    and "growOnce db fileIndex type fileSize = Inr x2" and "(db1, fileSize1) = x2"
  then have "fileSize1 = fileSize + chunkSize type"
    using growOnce_size [of db fileIndex type fileSize db1 fileSize1] by simp
  with \<open>fileSize \<le> need\<close> chunkSize_pos [of type]
  show "((db1, fileIndex, type, need, fileSize1), (db, fileIndex, type, need, fileSize))
          \<in> measure (\<lambda>(db, fileIndex, type, need, fileSize). Suc need - fileSize)"
    by simp
qed

declare growFile.simps [simp del]

text \<open>
  \<^verbatim>\<open>writeBlock\<close>. \<open>resizeInfo\<close> is \<^verbatim>\<open>vinfoBlockFile.resize\<close>. The network magic
  \<^verbatim>\<open>Params().MessageStart()\<close> is the parameter \<open>magic\<close>, of which four bytes are
  copied. A write through the mapping beyond the mapped size or beyond the file is
  a memory fault; this includes a write into the rest of the last page, which would
  not reach the file. A call that ends in an error has no result state: the
  exception leaves the function.
\<close>

definition resizeInfo :: "CBlockFileInfo list \<Rightarrow> nat \<Rightarrow> CBlockFileInfo list" where
  "resizeInfo v n = take n v @ replicate (n - length v) nullFileInfo"

definition selectFile ::
  "DBPrivate \<Rightarrow> nat \<Rightarrow> CDiskBlockPos \<Rightarrow> BlockType \<Rightarrow> bool \<times> DBPrivate" where
  "selectFile db blockSize pos type =
     (if length (vinfoBlockFile db) \<le> nLastBlockFile db
      then (True, db\<lparr>vinfoBlockFile := resizeInfo (vinfoBlockFile db) (nLastBlockFile db + 1)\<rparr>)
      else if type = ForwardBlock
              \<and> MAX_BLOCKFILE_SIZE
                   < u32 (nSize (vinfoBlockFile db ! nLastBlockFile db) + blockSize + 8)
      then (True, db\<lparr>vinfoBlockFile := resizeInfo (vinfoBlockFile db) (nLastBlockFile db + 2),
                     nLastBlockFile := nLastBlockFile db + 1\<rparr>)
      else if type = RevertBlock \<and> nLastBlockFile db < nFile pos
      then (True, db\<lparr>vinfoBlockFile :=
                       resizeInfo (vinfoBlockFile db) (max (nLastBlockFile db + 1) (nFile pos) + 1),
                     nLastBlockFile := max (nLastBlockFile db + 1) (nFile pos)\<rparr>)
      else (False, db))"

definition writeFrame ::
  "byte list \<Rightarrow> (byte list \<Rightarrow> uint256) \<Rightarrow> DBPrivate \<Rightarrow> byte list \<Rightarrow> nat \<Rightarrow> BlockType
     \<Rightarrow> uint256 option \<Rightarrow> nat \<Rightarrow> error + (DBPrivate \<times> CDiskBlockPos \<times> ConstBuffer)" where
  "writeFrame magic H db block fileIndex type blockHash fileSize =
     (let blockSize = length block;
          info = vinfoBlockFile db ! fileIndex;
          posInFile = (if type = ForwardBlock then nSize info else nUndoSize info);
          pos = \<lparr>nFile = fileIndex, nPos = u32 (posInFile + 8)\<rparr>;
          answer = \<lparr>bufFile = (type, fileIndex), bufBegin = posInFile + 8,
                    bufEnd = posInFile + 8 + blockSize\<rparr>
      in case blocksDir db (type, fileIndex) of
           None \<Rightarrow> Inl MemoryFault
         | Some f \<Rightarrow>
             if min fileSize (fsize f) < posInFile + 8 + blockSize then Inl MemoryFault
             else
               let f1 = memcpy (memcpy (memcpy f posInFile (take 4 magic))
                                  (posInFile + 4) (htole32 blockSize))
                          (posInFile + 8) block
               in
               if type = ForwardBlock then
                 Inr (db\<lparr>blocksDir := (blocksDir db)((type, fileIndex) \<mapsto> f1),
                         vinfoBlockFile := (vinfoBlockFile db)[fileIndex := info
                            \<lparr>nBlocks := nBlocks info + 1, nSize := u32 (nSize info + blockSize + 8)\<rparr>],
                         setDirtyFileInfo := insert fileIndex (setDirtyFileInfo db)\<rparr>,
                      pos, answer)
               else
                 (case blockHash of
                    None \<Rightarrow> Inl AssertionFailed
                  | Some hash \<Rightarrow>
                      if min fileSize (fsize f) < posInFile + 8 + blockSize + 32 then Inl MemoryFault
                      else
                        Inr (db\<lparr>blocksDir := (blocksDir db)((type, fileIndex) \<mapsto>
                                   memcpy f1 (posInFile + 8 + blockSize) (take 32 (H (hash @ block)))),
                                vinfoBlockFile := (vinfoBlockFile db)[fileIndex := info
                                   \<lparr>nUndoSize := u32 (u32 (nUndoSize info + 32) + blockSize + 8)\<rparr>],
                                setDirtyFileInfo := insert fileIndex (setDirtyFileInfo db)\<rparr>,
                             pos, answer)))"

definition writeBlock ::
  "byte list \<Rightarrow> (byte list \<Rightarrow> uint256) \<Rightarrow> DBPrivate \<Rightarrow> byte list \<Rightarrow> CDiskBlockPos \<Rightarrow> BlockType
     \<Rightarrow> uint256 option \<Rightarrow> error + (DBPrivate \<times> CDiskBlockPos \<times> ConstBuffer)" where
  "writeBlock magic H db block pos type blockHash =
     (let blockSize = length block in
      if \<not> blockSize < MAX_BLOCKFILE_SIZE - 8 then Inl AssertionFailed
      else
        (case selectFile db blockSize pos type of
           (newFile, db1) \<Rightarrow>
             let fileIndex = (if type = ForwardBlock then nLastBlockFile db1 else nFile pos) in
             if \<not> fileIndex \<le> nLastBlockFile db1 then Inl AssertionFailed
             else if \<not> fileIndex < length (vinfoBlockFile db1) then Inl AssertionFailed
             else
               let info = vinfoBlockFile db1 ! fileIndex in
               (case (if newFile \<or> (type = RevertBlock \<and> nUndoSize info = 0)
                      then startNewFile db1 type fileIndex blockSize else Inr db1) of
                  Inl e \<Rightarrow> Inl e
                | Inr db2 \<Rightarrow>
                    (case mapFile db2 fileIndex type of
                       (db3, None) \<Rightarrow> Inl FailedToOpenFile
                     | (db3, Some df) \<Rightarrow>
                         if \<not> readwrite df then Inl FileNotWritable
                         else
                           let posInFile = (if type = ForwardBlock then nSize info else nUndoSize info);
                               need = u32 (posInFile + blockSize + 8
                                             + (if type = ForwardBlock then 0 else 32))
                           in
                           (case growFile db3 fileIndex type need (filesize df) of
                              Inl e \<Rightarrow> Inl e
                            | Inr (db4, fileSize) \<Rightarrow>
                                writeFrame magic H db4 block fileIndex type blockHash fileSize)))))"


subsection \<open>Scanning the block files (reindex)\<close>

text \<open>
  \<^verbatim>\<open>memchr(buf, c, n)\<close>: the first of the \<open>n\<close> bytes from \<open>buf\<close> that equals the byte \<open>c\<close>,
  read through the mapping.
\<close>

fun memchr :: "nat \<Rightarrow> DiskFile \<Rightarrow> nat \<Rightarrow> byte \<Rightarrow> nat \<Rightarrow> error + nat option" where
  "memchr mappedSize f buf c 0 = Inr None"
| "memchr mappedSize f buf c (Suc n) =
     (case readView mappedSize f buf 1 of
        None \<Rightarrow> Inl MemoryFault
      | Some b \<Rightarrow> if b = [c] then Inr (Some buf) else memchr mappedSize f (Suc buf) c n)"

lemma memchr_ge: "memchr mappedSize f buf c n = Inr (Some found) \<Longrightarrow> buf \<le> found"
  by (induction n arbitrary: buf) (auto split: if_splits option.splits dest: Suc_leD)

text \<open>
  The loop of \<^verbatim>\<open>LoadExternalBlockFile\<close>. \<open>c\<close> is the value \<^verbatim>\<open>memchr\<close> looks for,
  \<open>fileEnd\<close> is \<^verbatim>\<open>dataFile.end()\<close>, \<open>mappedSize\<close> the size of the mapping, \<open>buf\<close> the
  offset of the read pointer; the state is the file info and the positions handed to
  \<^verbatim>\<open>addBlock\<close>. \<^verbatim>\<open>waitForSpace()\<close> only waits and is left out. The four bytes of the
  length are read where \<^verbatim>\<open>memchr\<close> stopped, without a test against the end of the
  view: behind the end of the file they are the zeros of the rest of the page.
\<close>

function scanBlockFile ::
  "byte \<Rightarrow> DiskFile \<Rightarrow> nat \<Rightarrow> nat \<Rightarrow> nat \<Rightarrow> nat \<Rightarrow> CBlockFileInfo \<times> CDiskBlockPos list
     \<Rightarrow> error + (CBlockFileInfo \<times> CDiskBlockPos list)" where
  "scanBlockFile c f fileEnd mappedSize fileNo buf (info, added) =
     (if buf < fileEnd then
        (case memchr mappedSize f buf c ((fileEnd - buf) div 4) of
           Inl e \<Rightarrow> Inl e
         | Inr None \<Rightarrow> Inr (info, added)
         | Inr (Some found) \<Rightarrow>
             (case readView mappedSize f (found + 4) 4 of
                None \<Rightarrow> Inl MemoryFault
              | Some blockSize \<Rightarrow>
                  if le32toh blockSize < 80
                  then scanBlockFile c f fileEnd mappedSize fileNo (found + 4) (info, added)
                  else
                    scanBlockFile c f fileEnd mappedSize fileNo
                      (found + 8 + le32toh blockSize)
                      (info\<lparr>nBlocks := nBlocks info + 1,
                            nSize := u32 (found + 8 + le32toh blockSize)\<rparr>,
                       added @ [\<lparr>nFile = fileNo, nPos = u32 (found + 8)\<rparr>])))
      else Inr (info, added))"
  by pat_completeness auto

termination scanBlockFile
proof (relation "measure (\<lambda>(c, f, fileEnd, mappedSize, fileNo, buf, s). fileEnd - buf)")
  show "wf (measure (\<lambda>(c, f, fileEnd, mappedSize, fileNo, buf, s). fileEnd - buf))"
    by simp
next
  fix c f fileEnd mappedSize fileNo buf info added r found
  assume "buf < fileEnd" and "memchr mappedSize f buf c ((fileEnd - buf) div 4) = Inr r"
    and "r = Some found"
  then show "((c, f, fileEnd, mappedSize, fileNo, found + 4, info, added),
              (c, f, fileEnd, mappedSize, fileNo, buf, info, added))
          \<in> measure (\<lambda>(c, f, fileEnd, mappedSize, fileNo, buf, s). fileEnd - buf)"
    using memchr_ge [of mappedSize f buf c "(fileEnd - buf) div 4" found] by simp
next
  fix c f fileEnd mappedSize fileNo buf info added r found blockSize
  assume "buf < fileEnd" and "memchr mappedSize f buf c ((fileEnd - buf) div 4) = Inr r"
    and "r = Some found"
  then show "((c, f, fileEnd, mappedSize, fileNo, found + 8 + le32toh blockSize,
               info\<lparr>nBlocks := nBlocks info + 1,
                     nSize := u32 (found + 8 + le32toh blockSize)\<rparr>,
               added @ [\<lparr>nFile = fileNo, nPos = u32 (found + 8)\<rparr>]),
              (c, f, fileEnd, mappedSize, fileNo, buf, info, added))
          \<in> measure (\<lambda>(c, f, fileEnd, mappedSize, fileNo, buf, s). fileEnd - buf)"
    using memchr_ge [of mappedSize f buf c "(fileEnd - buf) div 4" found] by simp
qed

declare scanBlockFile.simps [simp del]

definition foundBlockFile :: "DBPrivate \<Rightarrow> nat \<Rightarrow> CBlockFileInfo \<Rightarrow> DBPrivate" where
  "foundBlockFile db index info =
     (let last = max (nLastBlockFile db) index;
          v = (if length (vinfoBlockFile db) \<le> last
               then resizeInfo (vinfoBlockFile db) (last + 1) else vinfoBlockFile db)
      in db\<lparr>nLastBlockFile := last,
            vinfoBlockFile := v[index := (v ! index)\<lparr>nBlocks := nBlocks info, nSize := nSize info\<rparr>]\<rparr>)"

text \<open>
  \<^verbatim>\<open>LoadExternalBlockFile\<close>. The value given to \<^verbatim>\<open>memchr\<close> is the network magic read as
  an \<^verbatim>\<open>int\<close>, of which \<^verbatim>\<open>memchr\<close> uses the lowest byte: on a little-endian host the
  first byte of the magic. The validation engine is the list of the positions it was
  given. The view of \<^verbatim>\<open>loadBlockFile\<close> ends one byte before the end of the mapping.
\<close>

definition LoadExternalBlockFile ::
  "byte list \<Rightarrow> DBPrivate \<Rightarrow> CDiskBlockPos list \<Rightarrow> CDiskBlockPos
     \<Rightarrow> error + (bool \<times> DBPrivate \<times> CDiskBlockPos list)" where
  "LoadExternalBlockFile magic db validation pos =
     (case loadBlockFile db (nFile pos) of
        (db1, None) \<Rightarrow> Inr (False, db1, validation)
      | (db1, Some dataFile) \<Rightarrow>
          (case blocksDir db1 (ForwardBlock, nFile pos) of
             None \<Rightarrow> Inl MemoryFault
           | Some f \<Rightarrow>
               (case scanBlockFile (magic ! 0) f (bufEnd dataFile) (bufEnd dataFile + 1)
                       (nFile pos) (bufBegin dataFile) (nullFileInfo, []) of
                  Inl e \<Rightarrow> Inl e
                | Inr (info, added) \<Rightarrow>
                    Inr (True,
                         (if 0 < nBlocks info then foundBlockFile db1 (nFile pos) info else db1),
                         validation @ added))))"

text \<open>
  The loop of \<^verbatim>\<open>reimportBlockFiles\<close> over the files 0, 1, 2, ...; it ends at the first
  file that \<^verbatim>\<open>LoadExternalBlockFile\<close> cannot load. The shutdown flag
  \<^verbatim>\<open>Application::closingDown()\<close> is taken never to be set.
\<close>

partial_function (option) importBlockFiles ::
  "byte list \<Rightarrow> nat \<Rightarrow> DBPrivate \<Rightarrow> CDiskBlockPos list
     \<Rightarrow> (error + (DBPrivate \<times> CDiskBlockPos list)) option" where
  "importBlockFiles magic fileNo db validation =
     (case LoadExternalBlockFile magic db validation \<lparr>nFile = fileNo, nPos = 0\<rparr> of
        Inl e \<Rightarrow> Some (Inl e)
      | Inr (loaded, db1, validation1) \<Rightarrow>
          if loaded then importBlockFiles magic (fileNo + 1) db1 validation1
          else Some (Inr (db1, validation1)))"

declare importBlockFiles.simps [code]

subsection \<open>Loading the header index (CacheAllBlockInfos)\<close>

text \<open>
  Modelled from the spec: the row of a header in the metadata store,
  \<^verbatim>\<open>CDiskBlockIndex\<close> (chain.h), is the header record with the hash of its parent;
  \<open>hashBlock\<close> stands for the hash \<^verbatim>\<open>GetBlockHash()\<close> computes from the header fields.
  A row of the cursor is its key, if it can be read as a pair of a character and a
  hash, and its value, if it can be read.
\<close>

record CDiskBlockIndex = CBlockIndex +
  hashPrev :: uint256
  hashBlock :: uint256

record cursorRow =
  rowKey :: "(char \<times> uint256) option"
  rowValue :: "CDiskBlockIndex option"

definition DB_BLOCK_INDEX :: char where
  "DB_BLOCK_INDEX = CHR ''b''"

definition IsNull :: "uint256 \<Rightarrow> bool" where
  "IsNull hash = list_all (\<lambda>b. b = 0) hash"

definition nullIndex :: CBlockIndex where
  "nullIndex =
     \<lparr>phashBlock = None, pprev = None, pskip = None, nHeight = 0, CBlockIndex.nFile = 0,
      nDataPos = 0, nUndoPos = 0, nVersion = 0, hashMerkleRoot = [], nTime = 0, nBits = 0,
      nNonce = 0, nStatus = 0, nTx = 0, nChainWork = 0\<rparr>"

text \<open>
  The header index with the memory of its records: \<open>allocated\<close> is the next free
  address, which \<^verbatim>\<open>new CBlockIndex()\<close> takes.
\<close>

record IndexStore =
  indexMap :: BlockMap
  memory :: heap
  allocated :: ptr

definition InsertBlockIndex :: "IndexStore \<Rightarrow> uint256 \<Rightarrow> error + (IndexStore \<times> ptr option)" where
  "InsertBlockIndex s hash =
     (if IsNull hash then Inr (s, None)
      else
        (case Index_get (indexMap s) hash of
           Some answer \<Rightarrow> Inr (s, Some answer)
         | None \<Rightarrow>
             let pindexNew = allocated s in
             (case Index_insert (indexMap s) hash (Some pindexNew) of
                Inl e \<Rightarrow> Inl e
              | Inr (m, key) \<Rightarrow>
                  Inr (s\<lparr>indexMap := m,
                         memory := (memory s)(pindexNew := nullIndex\<lparr>phashBlock := Some key\<rparr>),
                         allocated := pindexNew + 1\<rparr>,
                       Some pindexNew))))"

text \<open>
  The loop over the cursor. \<open>Inr (False, _)\<close> is \<^verbatim>\<open>return error(...)\<close>, which returns
  false; a row whose hash is null makes the loop write through a null pointer.
\<close>

definition constructIndex :: "IndexStore \<Rightarrow> CDiskBlockIndex \<Rightarrow> error + (IndexStore \<times> ptr)" where
  "constructIndex s diskindex =
     (case InsertBlockIndex s (hashBlock diskindex) of
        Inl e \<Rightarrow> Inl e
      | Inr (s1, None) \<Rightarrow> Inl NullDereference
      | Inr (s1, Some pindexNew) \<Rightarrow>
          (case InsertBlockIndex s1 (hashPrev diskindex) of
             Inl e \<Rightarrow> Inl e
           | Inr (s2, prev) \<Rightarrow>
               Inr (s2\<lparr>memory := (memory s2)(pindexNew := (memory s2 pindexNew)
                         \<lparr>pprev := prev,
                          nHeight := nHeight diskindex,
                          CBlockIndex.nFile := CBlockIndex.nFile diskindex,
                          nDataPos := nDataPos diskindex,
                          nUndoPos := nUndoPos diskindex,
                          nVersion := nVersion diskindex,
                          hashMerkleRoot := hashMerkleRoot diskindex,
                          nTime := nTime diskindex,
                          nBits := nBits diskindex,
                          nNonce := nNonce diskindex,
                          nStatus := nStatus diskindex,
                          nTx := nTx diskindex\<rparr>)\<rparr>,
                    pindexNew)))"

fun loadRows :: "cursorRow list \<Rightarrow> IndexStore \<Rightarrow> int \<Rightarrow> error + (bool \<times> IndexStore \<times> int)" where
  "loadRows [] s maxFile = Inr (True, s, maxFile)"
| "loadRows (r # rows) s maxFile =
     (case rowKey r of
        None \<Rightarrow> Inr (True, s, maxFile)
      | Some key \<Rightarrow>
          if fst key = DB_BLOCK_INDEX then
            (case rowValue r of
               None \<Rightarrow> Inr (False, s, maxFile)
             | Some diskindex \<Rightarrow>
                 (case constructIndex s diskindex of
                    Inl e \<Rightarrow> Inl e
                  | Inr (s1, pindexNew) \<Rightarrow>
                      loadRows rows s1 (max (CBlockIndex.nFile (memory s1 pindexNew)) maxFile)))
          else Inr (True, s, maxFile))"

text \<open>
  Modelled from the spec: \<^verbatim>\<open>BuildSkip\<close> (chain.cpp) sets the skip pointer to the
  ancestor at the height \<open>SkipHeight\<close> of invariant I5 (the skip list of the
  blockchain).
\<close>

definition InvertLowestOne :: "int \<Rightarrow> int" where
  "InvertLowestOne n = n AND (n - 1)"

definition GetSkipHeight :: "int \<Rightarrow> int" where
  "GetSkipHeight height =
     (if height < 2 then 0
      else if odd height then InvertLowestOne (InvertLowestOne (height - 1)) + 1
      else InvertLowestOne height)"

definition BuildSkip :: "heap \<Rightarrow> ptr \<Rightarrow> heap" where
  "BuildSkip h p =
     (case pprev (h p) of
        None \<Rightarrow> h
      | Some q \<Rightarrow> h(p := (h p)\<lparr>pskip := GetAncestor h q (GetSkipHeight (nHeight (h p)))\<rparr>))"

fun appendAll :: "heap \<Rightarrow> ChainSet \<Rightarrow> BlockMap \<Rightarrow> (error + ChainSet) option" where
  "appendAll h cs [] = Some (Inr cs)"
| "appendAll h cs (it # m) =
     (case appendHeader h cs (Some (snd it)) of
        None \<Rightarrow> None
      | Some (Inl e) \<Rightarrow> Some (Inl e)
      | Some (Inr (r, cs1)) \<Rightarrow> appendAll h cs1 m)"

definition resizeSlots :: "DataFile option list \<Rightarrow> nat \<Rightarrow> DataFile option list" where
  "resizeSlots l n = take n l @ replicate (n - length l) None"

text \<open>
  \<^verbatim>\<open>CacheAllBlockInfos\<close>, on the rows the cursor yields from its first position. The
  two loops at the end follow the iterator of the hash table \<^verbatim>\<open>indexMap\<close>, whose order
  is that of the buckets, not that of insertion: \<open>iteration m\<close> is the sequence in
  which the iterator yields the entries of \<open>m\<close>.
\<close>

definition CacheAllBlockInfos ::
  "(BlockMap \<Rightarrow> BlockMap) \<Rightarrow> cursorRow list \<Rightarrow> IndexStore \<Rightarrow> ChainSet \<Rightarrow> DBPrivate
     \<Rightarrow> (error + (bool \<times> IndexStore \<times> ChainSet \<times> DBPrivate)) option" where
  "CacheAllBlockInfos iteration rows s cs db =
     (case loadRows rows s 0 of
        Inl e \<Rightarrow> Some (Inl e)
      | Inr (False, s1, maxFile) \<Rightarrow> Some (Inr (False, s1, cs, db))
      | Inr (True, s1, maxFile) \<Rightarrow>
          let db1 = db\<lparr>datafiles := resizeSlots (datafiles db) (nat maxFile),
                       revertDatafiles := resizeSlots (revertDatafiles db) (nat maxFile)\<rparr>;
              h1 = fold (\<lambda>it h. BuildSkip h (snd it)) (iteration (indexMap s1)) (memory s1)
          in case appendAll h1 cs (iteration (indexMap s1)) of
               None \<Rightarrow> None
             | Some (Inl e) \<Rightarrow> Some (Inl e)
             | Some (Inr cs1) \<Rightarrow> Some (Inr (True, s1\<lparr>memory := h1\<rparr>, cs1, db1)))"

subsection \<open>Notions used to state the properties\<close>

text \<open>The state of a fresh data directory: no files, nothing mapped, no file infos.\<close>

definition freshDB :: DBPrivate where
  "freshDB = \<lparr>blocksDir = (\<lambda>k. None), datafiles = [], revertDatafiles = [], vinfoBlockFile = [],
              nLastBlockFile = 0, setDirtyFileInfo = {}, logDebug = []\<rparr>"

text \<open>
  The recorded sizes are so far below \<open>2^32\<close> (by \<open>2^28\<close>) that the 32-bit sums of
  \<^verbatim>\<open>writeBlock\<close> do not wrap.
\<close>

definition sizesInRange :: "DBPrivate \<Rightarrow> bool" where
  "sizesInRange db =
     list_all (\<lambda>info. nSize info \<le> 4026531840 \<and> nUndoSize info \<le> 4026531840) (vinfoBlockFile db)"

text \<open>The size recorded for a blk or rev file; 0 when the file has no info yet.\<close>

definition recordedSize :: "DBPrivate \<Rightarrow> BlockType \<Rightarrow> nat \<Rightarrow> nat" where
  "recordedSize db t i =
     (if i < length (vinfoBlockFile db)
      then (if t = ForwardBlock then nSize (vinfoBlockFile db ! i) else nUndoSize (vinfoBlockFile db ! i))
      else 0)"

text \<open>
  The last blk file cannot take a payload of \<open>blockSize\<close> bytes and its 8 byte header:
  \<open>fileFull\<close> with the plain sum, \<open>fileFull32\<close> with the sum as \<^verbatim>\<open>writeBlock\<close> computes
  it, in 32 bits. \<open>noFileInfo\<close>: no file info is recorded for the last file number.
\<close>

definition fileFull :: "DBPrivate \<Rightarrow> nat \<Rightarrow> bool" where
  "fileFull db blockSize =
     (MAX_BLOCKFILE_SIZE < nSize (vinfoBlockFile db ! nLastBlockFile db) + blockSize + 8)"

definition fileFull32 :: "DBPrivate \<Rightarrow> nat \<Rightarrow> bool" where
  "fileFull32 db blockSize =
     (MAX_BLOCKFILE_SIZE < u32 (nSize (vinfoBlockFile db ! nLastBlockFile db) + blockSize + 8))"

definition noFileInfo :: "DBPrivate \<Rightarrow> bool" where
  "noFileInfo db = (length (vinfoBlockFile db) \<le> nLastBlockFile db)"

text \<open>The files started so far: the log lines of \<^verbatim>\<open>Starting new file\<close>.\<close>

definition started :: "DBPrivate \<Rightarrow> logline list" where
  "started db =
     filter (\<lambda>l. case l of StartingNewFile t i \<Rightarrow> True | NeedsToBeResized t i \<Rightarrow> False) (logDebug db)"

text \<open>
  The size of the view of a file that the mapper hands out: the size of the live
  mapping in the slot of the file, if there is one, and else the size of the file;
  \<open>None\<close> when nothing is mapped and the file is missing or empty.
\<close>

definition liveMapping :: "DBPrivate \<Rightarrow> BlockType \<Rightarrow> nat \<Rightarrow> DataFile option" where
  "liveMapping db t i = (if i < length (slots db t) then slots db t ! i else None)"

definition viewSize :: "DBPrivate \<Rightarrow> BlockType \<Rightarrow> nat \<Rightarrow> nat option" where
  "viewSize db t i =
     (case liveMapping db t i of
        Some df \<Rightarrow> Some (filesize df)
      | None \<Rightarrow>
          (case blocksDir db (t, i) of
             None \<Rightarrow> None
           | Some f \<Rightarrow> if fsize f = 0 then None else Some (fsize f)))"

text \<open>Every file that has a live mapping is in the directory.\<close>

definition mappedFilesExist :: "DBPrivate \<Rightarrow> bool" where
  "mappedFilesExist db =
     (\<forall>t i. liveMapping db t i = None \<or> blocksDir db (t, i) \<noteq> None)"

text \<open>
  What the view of a file holds at a position: the length declared in the four
  bytes before it, the payload of that length and the 32 bytes after the payload.
\<close>

definition declaredLength :: "DiskFile \<Rightarrow> CDiskBlockPos \<Rightarrow> nat" where
  "declaredLength f pos = le32toh (viewBytes f (nPos pos - 4) 4)"

definition payloadAt :: "DiskFile \<Rightarrow> CDiskBlockPos \<Rightarrow> byte list" where
  "payloadAt f pos = viewBytes f (nPos pos) (declaredLength f pos)"

definition checksumAt :: "DiskFile \<Rightarrow> CDiskBlockPos \<Rightarrow> byte list" where
  "checksumAt f pos = viewBytes f (nPos pos + declaredLength f pos) 32"

text \<open>
  The 32-bit sum that \<^verbatim>\<open>loadBlock\<close> compares with the file size does not wrap at this
  position.
\<close>

definition noWrap :: "DBPrivate \<Rightarrow> CDiskBlockPos \<Rightarrow> BlockType \<Rightarrow> bool" where
  "noWrap db pos t =
     (case blocksDir db (t, nFile pos) of
        None \<Rightarrow> True
      | Some f \<Rightarrow> nPos pos + declaredLength f pos + 32 < 4294967296)"

text \<open>The largest file number of the header rows a cursor yields, 0 when there is none.\<close>

definition blockRows :: "cursorRow list \<Rightarrow> CDiskBlockIndex list" where
  "blockRows rows =
     map (\<lambda>r. the (rowValue r))
       (takeWhile (\<lambda>r. (case rowKey r of None \<Rightarrow> False | Some key \<Rightarrow> fst key = DB_BLOCK_INDEX)
                        \<and> rowValue r \<noteq> None) rows)"

definition largestFile :: "cursorRow list \<Rightarrow> int" where
  "largestFile rows = fold (\<lambda>d m. max (CBlockIndex.nFile d) m) (blockRows rows) 0"


subsection \<open>Header trees used as concrete inputs\<close>

text \<open>
  A header with a parent, a height, its cumulative work and its status; the other
  fields do not matter to the header tree. Status 2 is \<open>VALID_TREE\<close>, 34 adds
  \<open>FAILED_VALID\<close>, 66 adds \<open>FAILED_CHILD\<close>.
\<close>

definition header :: "ptr option \<Rightarrow> int \<Rightarrow> nat \<Rightarrow> 32 word \<Rightarrow> CBlockIndex" where
  "header prev hgt work st =
     \<lparr>phashBlock = Some 0, pprev = prev, pskip = None, nHeight = hgt, CBlockIndex.nFile = 0, nDataPos = 0,
      nUndoPos = 0, nVersion = 1, hashMerkleRoot = [], nTime = 0, nBits = 0, nNonce = 0,
      nStatus = st, nTx = 0, nChainWork = work\<rparr>"

definition heapOf :: "CBlockIndex list \<Rightarrow> heap" where
  "heapOf rs p = (if p < length rs then rs ! p else header None 0 0 0)"

text \<open>
  Genesis 0 with the children 1 (work 2) and 2 (work 3); 3 is a child of 2 that
  failed validation.
\<close>

definition unseenParent :: heap where
  "unseenParent =
     heapOf [header None 0 1 2, header (Some 0) 1 2 2, header (Some 0) 1 3 2,
             header (Some 2) 2 4 34]"

text \<open>
  Genesis 0; the branch 1 (work 5); the branch 2 (work 2), 3 (work 6), 4 (work 7).
  In \<open>longBranchFailed\<close> record 3 has failed validation and its child 4 is marked
  \<open>FAILED_CHILD\<close>.
\<close>

definition longBranch :: heap where
  "longBranch =
     heapOf [header None 0 1 2, header (Some 0) 1 5 2, header (Some 0) 1 2 2,
             header (Some 2) 2 6 2, header (Some 3) 3 7 2]"

definition longBranchFailed :: heap where
  "longBranchFailed =
     heapOf [header None 0 1 2, header (Some 0) 1 5 2, header (Some 0) 1 2 2,
             header (Some 2) 2 6 34, header (Some 3) 3 7 66]"

text \<open>
  Genesis 0; the main branch 1 (work 9); the side branch 2 (work 2) with the children
  3 and 4 (work 3 each); 5 (work 4) is a child of 4. In \<open>sideBranchFailed\<close> record 3
  has failed validation.
\<close>

definition sideBranch :: heap where
  "sideBranch =
     heapOf [header None 0 1 2, header (Some 0) 1 9 2, header (Some 0) 1 2 2,
             header (Some 2) 2 3 2, header (Some 2) 2 3 2, header (Some 4) 3 4 2]"

definition sideBranchFailed :: heap where
  "sideBranchFailed =
     heapOf [header None 0 1 2, header (Some 0) 1 9 2, header (Some 0) 1 2 2,
             header (Some 2) 2 3 34, header (Some 2) 2 3 2, header (Some 4) 3 4 2]"

text \<open>Hashes for the examples: 32 bytes, the first one given.\<close>

definition hashOf :: "nat \<Rightarrow> uint256" where
  "hashOf n = of_nat n # replicate 31 0"

definition twoEntries :: BlockMap where
  "twoEntries = [(hashOf 1, 7), (hashOf 2, 8)]"

definition longBranchIndex :: BlockMap where
  "longBranchIndex = [(hashOf 1, 0), (hashOf 2, 1), (hashOf 3, 2), (hashOf 4, 3), (hashOf 5, 4)]"

text \<open>
  A network magic, a stand-in for the hash function with digests of 32 bytes, and a
  payload of 81 bytes.
\<close>

definition mainnetMagic :: "byte list" where
  "mainnetMagic = [0xf9, 0xbe, 0xb4, 0xd9]"

definition toyHash :: "byte list \<Rightarrow> uint256" where
  "toyHash bs = replicate 32 (of_nat (length bs))"

definition exampleBlock :: "byte list" where
  "exampleBlock = replicate 81 1"

text \<open>
  Two blk files of a damaged directory. \<open>strayByteFile\<close> (128 bytes) has the first byte
  of the magic at offset 0, followed by three zero bytes, the length 80 and zeros.
  \<open>lateFrameFile\<close> (200 bytes) is zero up to offset 100, where a frame starts: the
  four bytes of the magic, the length 80 and a payload of zeros.
\<close>

definition strayByteFile :: DiskFile where
  "strayByteFile =
     \<lparr>fsize = 128, fdata = (\<lambda>i. if i = 0 then 0xf9 else if i = 4 then 80 else 0), readonly = False\<rparr>"

definition lateFrameFile :: DiskFile where
  "lateFrameFile =
     \<lparr>fsize = 200,
      fdata = (\<lambda>i. if i = 100 then 0xf9 else if i = 101 then 0xbe else if i = 102 then 0xb4
                   else if i = 103 then 0xd9 else if i = 104 then 80 else 0),
      readonly = False\<rparr>"

definition directoryWith :: "DiskFile \<Rightarrow> DBPrivate" where
  "directoryWith f =
     freshDB\<lparr>blocksDir := (\<lambda>k. if k = (ForwardBlock, 0) then Some f else None)\<rparr>"

text \<open>
  A blk file of 6 bytes: the first byte of the magic, and the low bytes of the length
  80 at the offsets 4 and 5, so that the length runs across the end of the file.
\<close>

definition shortFile :: DiskFile where
  "shortFile =
     \<lparr>fsize = 6, fdata = (\<lambda>i. if i = 0 then 0xf9 else if i = 4 then 80 else 0), readonly = False\<rparr>"

text \<open>
  A blk file of no bytes, and the state in which the info of the blk file 0 is
  recorded (one block, 89 bytes used) while no file is in the directory.
\<close>

definition emptyFile :: DiskFile where
  "emptyFile = \<lparr>fsize = 0, fdata = (\<lambda>i. 0), readonly = False\<rparr>"

definition filesGone :: DBPrivate where
  "filesGone = freshDB\<lparr>vinfoBlockFile := [\<lparr>nBlocks = 1, nSize = 89, nUndoSize = 0\<rparr>]\<rparr>"

text \<open>
  Rows of the metadata store: three headers in a line, in the files 0, 1 and 2,
  followed by a row of another kind. \<open>emptyStore\<close> is the header index before
  anything is loaded.
\<close>

definition diskRow :: "nat \<Rightarrow> nat \<Rightarrow> int \<Rightarrow> int \<Rightarrow> cursorRow" where
  "diskRow hash prev hgt fileNo =
     \<lparr>rowKey = Some (DB_BLOCK_INDEX, hashOf hash),
      rowValue = Some (CBlockIndex.extend
         (nullIndex\<lparr>nHeight := hgt, CBlockIndex.nFile := fileNo, nStatus := 2\<rparr>)
         (CDiskBlockIndex.fields (if prev = 0 then replicate 32 0 else hashOf prev) (hashOf hash)))\<rparr>"

definition exampleRows :: "cursorRow list" where
  "exampleRows = [diskRow 1 0 0 0, diskRow 2 1 1 1, diskRow 3 2 2 2,
                  \<lparr>rowKey = Some (CHR ''f'', []), rowValue = None\<rparr>]"

definition emptyStore :: IndexStore where
  "emptyStore = \<lparr>indexMap = [], memory = (\<lambda>p. nullIndex), allocated = 0\<rparr>"

section \<open>Properties\<close>

subsection \<open>appendHeader\<close>

text \<open>
  C1. After any sequence of \<open>appendHeader\<close> calls the main tip is claimed to be one
  of the tips and to have the most work among the records that have not failed.
  The code breaks both parts.

  On \<open>unseenParent\<close> the calls for 0, 1 and then the failed record 3 (whose valid
  parent 2 was never appended itself) end with the main chain at 2 and the tips
  \<open>[1]\<close>: the last comparison moves the main chain to \<open>validPrev\<close>, which the loops
  before it did not add to the tips.

  On \<open>longBranch\<close> the calls for 0 to 4 make 4 the main tip. When 3 has then failed
  (\<open>longBranchFailed\<close>) and is appended again, the tip 4 is dropped, the main chain
  is set to 2 (work 2), and the tip 1 (work 5), which has not failed, is never
  compared with it.
\<close>

theorem appendHeader_main_tip_lost:
  "appendHeaders unseenParent emptyChainSet [0, 1, 3]
     = Some (Inr \<lparr>headersChain = Some 2, headerChainTips = [1], pindexBestHeader = Some 3\<rparr>)
   \<and> appendHeaders longBranch emptyChainSet [0, 1, 2, 3, 4]
     = Some (Inr \<lparr>headersChain = Some 4, headerChainTips = [1, 4], pindexBestHeader = Some 4\<rparr>)
   \<and> appendHeader longBranchFailed
        \<lparr>headersChain = Some 4, headerChainTips = [1, 4], pindexBestHeader = Some 4\<rparr> (Some 3)
     = Some (Inr (True,
         \<lparr>headersChain = Some 2, headerChainTips = [1, 2], pindexBestHeader = Some 4\<rparr>))
   \<and> nChainWork (longBranchFailed 2) < nChainWork (longBranchFailed 1)
   \<and> \<not> failed longBranchFailed 1"
  by code_simp

text \<open>
  C2. Appending a record twice is claimed to leave the tips and the main tip as
  appending it once. On \<open>sideBranch\<close> the calls for 0 to 4 give the tips \<open>[1, 3, 4]\<close>;
  when 3 has failed and is appended again, the first loop replaces the tip 3 by its
  parent 2 although 2 is an ancestor of the tip 4, so the tips become \<open>[1, 4, 2]\<close>.
  Appending the valid record 5 (a child of 4) then gives \<open>[1, 2, 5]\<close>, and appending
  it a second time gives \<open>[1, 5, 5]\<close>: the second call finds the tip 2, an ancestor of
  5, and replaces it.
\<close>

theorem appendHeader_twice_differs:
  "appendHeaders sideBranch emptyChainSet [0, 1, 2, 3, 4]
     = Some (Inr \<lparr>headersChain = Some 1, headerChainTips = [1, 3, 4], pindexBestHeader = Some 1\<rparr>)
   \<and> appendHeader sideBranchFailed
        \<lparr>headersChain = Some 1, headerChainTips = [1, 3, 4], pindexBestHeader = Some 1\<rparr> (Some 3)
     = Some (Inr (False,
         \<lparr>headersChain = Some 1, headerChainTips = [1, 4, 2], pindexBestHeader = Some 1\<rparr>))
   \<and> appendHeader sideBranchFailed
        \<lparr>headersChain = Some 1, headerChainTips = [1, 4, 2], pindexBestHeader = Some 1\<rparr> (Some 5)
     = Some (Inr (False,
         \<lparr>headersChain = Some 1, headerChainTips = [1, 2, 5], pindexBestHeader = Some 1\<rparr>))
   \<and> appendHeader sideBranchFailed
        \<lparr>headersChain = Some 1, headerChainTips = [1, 2, 5], pindexBestHeader = Some 1\<rparr> (Some 5)
     = Some (Inr (False,
         \<lparr>headersChain = Some 1, headerChainTips = [1, 5, 5], pindexBestHeader = Some 1\<rparr>))"
  by code_simp

subsection \<open>The header index\<close>

lemma find_entry_Some: "find_entry m hash = Some k \<Longrightarrow> k < length m \<and> fst (m ! k) = hash"
  by (induction m arbitrary: k) (auto split: if_splits)

text \<open>
  C10. When the hash is already in the index, \<open>insert\<close> with another record leaves
  the index as it is: the call returns the address of the key of the entry that is
  already stored, \<open>get\<close> still returns the record inserted first, and \<open>size\<close>
  is the same.
\<close>

theorem Index_insert_first_wins:
  assumes "Index_get m hash = Some r1"
  shows "\<exists>k. Index_insert m hash (Some r2) = Inr (m, k) \<and> k < length m \<and> m ! k = (hash, r1)
           \<and> Index_get (fst (projr (Index_insert m hash (Some r2)))) hash = Some r1
           \<and> Index_size (fst (projr (Index_insert m hash (Some r2)))) = Index_size m"
proof -
  from assms obtain k where k: "find_entry m hash = Some k" and r1: "snd (m ! k) = r1"
    by (auto simp: Index_get_def split: option.splits)
  from find_entry_Some [OF k] have "k < length m" and "fst (m ! k) = hash" by simp_all
  with r1 have "m ! k = (hash, r1)" by (simp add: prod_eq_iff)
  with k \<open>k < length m\<close> assms show ?thesis
    by (simp add: Index_insert_def)
qed


theorem Index_insert_first_wins_witness:
  "Index_get twoEntries (hashOf 2) = Some 8
   \<and> (\<exists>k. Index_insert twoEntries (hashOf 2) (Some 9) = Inr (twoEntries, k)
          \<and> k < length twoEntries \<and> twoEntries ! k = (hashOf 2, 8)
          \<and> Index_get (fst (projr (Index_insert twoEntries (hashOf 2) (Some 9)))) (hashOf 2) = Some 8
          \<and> Index_size (fst (projr (Index_insert twoEntries (hashOf 2) (Some 9))))
              = Index_size twoEntries)"
proof -
  have h: "Index_get twoEntries (hashOf 2) = Some 8"
    by code_simp
  from h Index_insert_first_wins [OF h] show ?thesis
    by (rule conjI)
qed

subsection \<open>reconsiderBlock\<close>

lemma and_not_mask_id: "(x::32 word) AND m = 0 \<Longrightarrow> x AND NOT m = x"
  by (metis (no_types, lifting) bit.conj_cancel_left bit.conj_disj_distrib
    bit.de_Morgan_conj word_ao_absorbs(2) word_not_not)

lemma and_not_and: "((x::32 word) AND NOT m) AND m = 0"
  by (simp add: and.assoc)

definition cleared :: "heap \<Rightarrow> (ptr \<Rightarrow> bool) \<Rightarrow> heap" where
  "cleared h P = (\<lambda>p. if P p then (h p)\<lparr>nStatus := nStatus (h p) AND NOT BLOCK_FAILED_MASK\<rparr> else h p)"

lemma pprev_clearFailed [simp]: "pprev (clearFailed h p q) = pprev (h q)"
  by (simp add: clearFailed_def)

lemma nHeight_clearFailed [simp]: "nHeight (clearFailed h p q) = nHeight (h q)"
  by (simp add: clearFailed_def)

lemma walk_prev_clearFailed [simp]: "walk_prev (clearFailed h p) n q = walk_prev h n q"
  by (induction n arbitrary: q) (auto split: option.splits)

lemma GetAncestor_clearFailed [simp]: "GetAncestor (clearFailed h p) q ht = GetAncestor h q ht"
  by (simp add: GetAncestor_def)

lemma failed_clearFailed: "failed (clearFailed h p) q = (q \<noteq> p \<and> failed h q)"
  by (simp add: clearFailed_def failed_def and_not_and)

lemma IsValid_clearFailed_other: "q \<noteq> p \<Longrightarrow> IsValid (clearFailed h p) q = IsValid h q"
  by (simp add: IsValid_def failed_def clearFailed_def)

lemma clearFailed_twice: "clearFailed (clearFailed h p) p = clearFailed h p"
  by (simp add: clearFailed_def fun_eq_iff and.assoc)

definition descendantsIn :: "heap \<Rightarrow> BlockMap \<Rightarrow> ptr \<Rightarrow> int \<Rightarrow> ptr set" where
  "descendantsIn h m r ht = {p \<in> snd ` set m. \<not> IsValid h p \<and> GetAncestor h p ht = Some r}"

lemma reconsiderDescendants_eq:
  "reconsiderDescendants r ht m (h, d) =
     (cleared h (\<lambda>p. p \<in> descendantsIn h m r ht), d \<union> descendantsIn h m r ht)"
proof (induction m arbitrary: h d)
  case Nil
  show ?case by (simp add: cleared_def descendantsIn_def)
next
  case (Cons it m)
  show ?case
  proof (cases "\<not> IsValid h (snd it) \<and> GetAncestor h (snd it) ht = Some r")
    case False
    then have "descendantsIn h (it # m) r ht = descendantsIn h m r ht"
      by (auto simp: descendantsIn_def)
    moreover have "reconsiderDescendants r ht (it # m) (h, d) = reconsiderDescendants r ht m (h, d)"
      using False by auto
    ultimately show ?thesis using Cons by simp
  next
    case True
    let ?q = "snd it"
    let ?h1 = "clearFailed h ?q"
    have D: "descendantsIn h (it # m) r ht = insert ?q (descendantsIn h m r ht)"
      using True by (auto simp: descendantsIn_def)
    have D1: "descendantsIn ?h1 m r ht - {?q} = descendantsIn h m r ht - {?q}"
      by (auto simp: descendantsIn_def IsValid_clearFailed_other)
    have qD: "?q \<in> descendantsIn h m r ht \<Longrightarrow> ?q \<in> snd ` set m" for x
      by (simp add: descendantsIn_def)
    have heap: "cleared ?h1 (\<lambda>p. p \<in> descendantsIn ?h1 m r ht)
                 = cleared h (\<lambda>p. p \<in> insert ?q (descendantsIn h m r ht))"
    proof
      fix p
      show "cleared ?h1 (\<lambda>p. p \<in> descendantsIn ?h1 m r ht) p
             = cleared h (\<lambda>p. p \<in> insert ?q (descendantsIn h m r ht)) p"
      proof (cases "p = ?q")
        case True
        then show ?thesis by (simp add: cleared_def clearFailed_def and.assoc)
      next
        case False
        with D1 have "p \<in> descendantsIn ?h1 m r ht \<longleftrightarrow> p \<in> descendantsIn h m r ht" by blast
        with False show ?thesis by (simp add: cleared_def clearFailed_def)
      qed
    qed
    have dirty: "insert ?q d \<union> descendantsIn ?h1 m r ht = d \<union> insert ?q (descendantsIn h m r ht)"
      using D1 by blast
    from True have "reconsiderDescendants r ht (it # m) (h, d)
        = reconsiderDescendants r ht m (?h1, insert ?q d)" by simp
    also have "\<dots> = (cleared ?h1 (\<lambda>p. p \<in> descendantsIn ?h1 m r ht),
                       insert ?q d \<union> descendantsIn ?h1 m r ht)" by (rule Cons)
    finally show ?thesis using heap dirty D by simp
  qed
qed

lemma ancestorsOf_self: "q \<in> ancestorsOf h q"
proof -
  have "walk_prev h 0 q = Some q" by simp
  then show ?thesis unfolding ancestorsOf_def by blast
qed

lemma ancestorsOf_None:
  assumes "pprev (h q) = None"
  shows "ancestorsOf h q = {q}"
proof -
  have "p = q" if "walk_prev h k q = Some p" for p k
    using that assms by (cases k) simp_all
  then show ?thesis using ancestorsOf_self [of q h] unfolding ancestorsOf_def by blast
qed

lemma ancestorsOf_Some:
  assumes "pprev (h q) = Some q'"
  shows "ancestorsOf h q = insert q (ancestorsOf h q')"
proof -
  have 1: "p = q \<or> (\<exists>j. walk_prev h j q' = Some p)" if "walk_prev h k q = Some p" for p k
    using that assms by (cases k) auto
  have 2: "\<exists>k. walk_prev h k q = Some p" if "walk_prev h j q' = Some p" for p j
  proof -
    from that assms have "walk_prev h (Suc j) q = Some p" by simp
    then show ?thesis by blast
  qed
  show ?thesis
  proof (rule set_eqI)
    fix p
    show "p \<in> ancestorsOf h q \<longleftrightarrow> p \<in> insert q (ancestorsOf h q')"
      using 1 [of _ p] 2 [of _ p] ancestorsOf_self [of q h] unfolding ancestorsOf_def by blast
  qed
qed

lemma ancestorsOf_clearFailed [simp]: "ancestorsOf (clearFailed h p) q = ancestorsOf h q"
  by (simp add: ancestorsOf_def)

lemma reconsiderAncestors_None: "reconsiderAncestors h d None = Some (h, d)"
  by (subst reconsiderAncestors.simps) simp

lemma reconsiderAncestors_Some:
  "reconsiderAncestors h d (Some p) =
     (if failed h p
      then reconsiderAncestors (clearFailed h p) (insert p d) (pprev (h p))
      else reconsiderAncestors h d (pprev (h p)))"
  by (subst reconsiderAncestors.simps) simp


lemma clearFailed_same:
  "clearFailed h p p = (h p)\<lparr>nStatus := nStatus (h p) AND NOT BLOCK_FAILED_MASK\<rparr>"
  by (simp add: clearFailed_def)

lemma clearFailed_other: "q \<noteq> p \<Longrightarrow> clearFailed h p q = h q"
  by (simp add: clearFailed_def)

lemma cleared_clearFailed_step:
  assumes "failed h q"
  shows "cleared (clearFailed h q) (\<lambda>p. p \<in> A \<and> failed (clearFailed h q) p)
           = cleared h (\<lambda>p. p \<in> insert q A \<and> failed h p)"
proof
  fix p
  show "cleared (clearFailed h q) (\<lambda>p. p \<in> A \<and> failed (clearFailed h q) p) p
          = cleared h (\<lambda>p. p \<in> insert q A \<and> failed h p) p"
  proof (cases "p = q")
    case True
    with assms show ?thesis by (simp add: cleared_def failed_clearFailed clearFailed_same)
  next
    case False
    then show ?thesis by (simp add: cleared_def failed_clearFailed clearFailed_other)
  qed
qed

lemma cleared_skip_step:
  assumes "\<not> failed h q"
  shows "cleared h (\<lambda>p. p \<in> insert q A \<and> failed h p) = cleared h (\<lambda>p. p \<in> A \<and> failed h p)"
proof
  fix p
  show "cleared h (\<lambda>p. p \<in> insert q A \<and> failed h p) p = cleared h (\<lambda>p. p \<in> A \<and> failed h p) p"
    using assms by (cases "p = q") (simp_all add: cleared_def)
qed

lemma reconsiderAncestors_eq:
  "walk_prev h n q = None \<Longrightarrow>
   reconsiderAncestors h d (Some q) =
     Some (cleared h (\<lambda>p. p \<in> ancestorsOf h q \<and> failed h p),
           d \<union> {p \<in> ancestorsOf h q. failed h p})"
proof (induction n arbitrary: h d q)
  case 0
  then show ?case by simp
next
  case (Suc n)
  show ?case
  proof (cases "pprev (h q)")
    case None
    then have A: "ancestorsOf h q = {q}" by (rule ancestorsOf_None)
    show ?thesis
    proof (cases "failed h q")
      case True
      have "cleared h (\<lambda>p. p \<in> {q} \<and> failed h p) = clearFailed h q"
        using cleared_clearFailed_step [OF True, of "{}"] by (simp add: cleared_def)
      moreover have "{p \<in> {q}. failed h p} = {q}" using True by auto
      ultimately show ?thesis unfolding A using True None
        by (simp add: reconsiderAncestors_Some reconsiderAncestors_None)
    next
      case False
      have "cleared h (\<lambda>p. p \<in> {q} \<and> failed h p) = h"
        using cleared_skip_step [OF False, of "{}"] by (simp add: cleared_def)
      moreover have "{p \<in> {q}. failed h p} = {}" using False by auto
      ultimately show ?thesis unfolding A using False None
        by (auto simp: reconsiderAncestors_Some reconsiderAncestors_None)
    qed
  next
    case (Some q')
    with Suc.prems have w: "walk_prev h n q' = None" by simp
    have A: "ancestorsOf h q = insert q (ancestorsOf h q')"
      using Some by (rule ancestorsOf_Some)
    show ?thesis
    proof (cases "failed h q")
      case False
      have "reconsiderAncestors h d (Some q) = reconsiderAncestors h d (Some q')"
        using False Some by (subst reconsiderAncestors_Some) simp
      also have "\<dots> = Some (cleared h (\<lambda>p. p \<in> ancestorsOf h q' \<and> failed h p),
                          d \<union> {p \<in> ancestorsOf h q'. failed h p})"
        by (rule Suc.IH [OF w])
      also have "cleared h (\<lambda>p. p \<in> ancestorsOf h q' \<and> failed h p)
                  = cleared h (\<lambda>p. p \<in> ancestorsOf h q \<and> failed h p)"
        unfolding A by (rule cleared_skip_step [OF False, symmetric])
      also have "{p \<in> ancestorsOf h q'. failed h p} = {p \<in> ancestorsOf h q. failed h p}"
        unfolding A using False by blast
      finally show ?thesis .
    next
      case True
      let ?h1 = "clearFailed h q"
      have w1: "walk_prev ?h1 n q' = None" using w by simp
      have "reconsiderAncestors h d (Some q) = reconsiderAncestors ?h1 (insert q d) (Some q')"
        using True Some by (subst reconsiderAncestors_Some) simp
      also have "\<dots> = Some (cleared ?h1 (\<lambda>p. p \<in> ancestorsOf ?h1 q' \<and> failed ?h1 p),
                          insert q d \<union> {p \<in> ancestorsOf ?h1 q'. failed ?h1 p})"
        by (rule Suc.IH [OF w1])
      also have "cleared ?h1 (\<lambda>p. p \<in> ancestorsOf ?h1 q' \<and> failed ?h1 p)
                  = cleared h (\<lambda>p. p \<in> ancestorsOf h q \<and> failed h p)"
        unfolding A ancestorsOf_clearFailed by (rule cleared_clearFailed_step [OF True])
      also have "insert q d \<union> {p \<in> ancestorsOf ?h1 q'. failed ?h1 p}
                  = d \<union> {p \<in> ancestorsOf h q. failed h p}"
        unfolding A ancestorsOf_clearFailed failed_clearFailed using True by blast
      finally show ?thesis .
    qed
  qed
qed


lemma pprev_cleared [simp]: "pprev (cleared h P q) = pprev (h q)"
  by (simp add: cleared_def)

lemma nHeight_cleared [simp]: "nHeight (cleared h P q) = nHeight (h q)"
  by (simp add: cleared_def)

lemma walk_prev_cleared [simp]: "walk_prev (cleared h P) n q = walk_prev h n q"
  by (induction n arbitrary: q) (auto split: option.splits)

lemma ancestorsOf_cleared [simp]: "ancestorsOf (cleared h P) q = ancestorsOf h q"
  by (simp add: ancestorsOf_def)

lemma failed_cleared: "failed (cleared h P) q = (\<not> P q \<and> failed h q)"
  by (simp add: cleared_def failed_def and_not_and)

lemma clear_not_failed:
  "\<not> failed h p \<Longrightarrow> (h p)\<lparr>nStatus := nStatus (h p) AND NOT BLOCK_FAILED_MASK\<rparr> = h p"
  by (simp add: failed_def and_not_mask_id)

lemma cleared_apply:
  "cleared h P p =
     (if P p then (h p)\<lparr>nStatus := nStatus (h p) AND NOT BLOCK_FAILED_MASK\<rparr> else h p)"
  by (simp add: cleared_def)

lemma cleared_twice:
  "cleared (cleared h P) (\<lambda>p. Q p \<and> failed (cleared h P) p) = cleared h (\<lambda>p. P p \<or> Q p \<and> failed h p)"
  by (rule ext) (simp add: cleared_apply failed_cleared)

lemma cleared_cong_failed:
  assumes "\<And>p. failed h p \<Longrightarrow> P p = Q p"
  shows "cleared h P = cleared h Q"
proof
  fix p
  show "cleared h P p = cleared h Q p"
  proof (cases "failed h p")
    case True
    with assms show ?thesis by (simp add: cleared_def)
  next
    case False
    then show ?thesis by (simp add: cleared_def clear_not_failed)
  qed
qed

lemma status_changed_failed: "nStatus (cleared h P p) \<noteq> nStatus (h p) \<Longrightarrow> P p \<and> failed h p"
  by (cases "failed h p") (auto simp: cleared_def clear_not_failed split: if_splits)

text \<open>
  C8. When the parents of \<open>r\<close> end (the walk along \<open>prev\<close> reaches a record without
  parent), \<open>reconsiderBlock\<close> returns, and afterwards every record is as before but
  for its status: the failure flags are cleared on exactly the records of the index
  whose ancestor at the height of \<open>r\<close> is \<open>r\<close> and on the ancestors of \<open>r\<close>. Every
  record whose status has changed is in the dirty set, and no record leaves it.
\<close>

theorem reconsiderBlock_clears_exactly:
  assumes "walk_prev h n r = None"
  shows "\<exists>h' dirty'. reconsiderBlock m h dirty r = Some (True, h', dirty')
     \<and> (\<forall>p. h' p =
          (if (p \<in> snd ` set m \<and> GetAncestor h p (nHeight (h r)) = Some r) \<or> p \<in> ancestorsOf h r
           then (h p)\<lparr>nStatus := nStatus (h p) AND NOT BLOCK_FAILED_MASK\<rparr> else h p))
     \<and> dirty \<subseteq> dirty' \<and> (\<forall>p. nStatus (h' p) \<noteq> nStatus (h p) \<longrightarrow> p \<in> dirty')"
proof -
  let ?D = "descendantsIn h m r (nHeight (h r))"
  let ?h1 = "cleared h (\<lambda>p. p \<in> ?D)"
  let ?A = "ancestorsOf h r"
  let ?P = "\<lambda>p. (p \<in> snd ` set m \<and> GetAncestor h p (nHeight (h r)) = Some r) \<or> p \<in> ?A"
  let ?h2 = "cleared ?h1 (\<lambda>p. p \<in> ancestorsOf ?h1 r \<and> failed ?h1 p)"
  let ?d2 = "(dirty \<union> ?D) \<union> {p \<in> ancestorsOf ?h1 r. failed ?h1 p}"
  have w1: "walk_prev ?h1 n r = None" using assms by simp
  have run: "reconsiderBlock m h dirty r = Some (True, ?h2, ?d2)"
    by (simp add: reconsiderBlock_def reconsiderDescendants_eq reconsiderAncestors_eq [OF w1])
  have "?h2 = cleared h (\<lambda>p. p \<in> ?D \<or> p \<in> ?A \<and> failed h p)"
    by (simp add: cleared_twice)
  also have "\<dots> = cleared h ?P"
  proof (rule cleared_cong_failed)
    fix p assume "failed h p"
    then have "\<not> IsValid h p" by (simp add: IsValid_def)
    then show "(p \<in> ?D \<or> p \<in> ?A \<and> failed h p) = ?P p"
      using \<open>failed h p\<close> by (auto simp: descendantsIn_def)
  qed
  finally have heap: "?h2 = cleared h ?P" .
  have changed: "p \<in> ?d2" if "nStatus (?h2 p) \<noteq> nStatus (h p)" for p
  proof -
    from that have "nStatus (cleared h (\<lambda>p. p \<in> ?D \<or> p \<in> ?A \<and> failed h p) p) \<noteq> nStatus (h p)"
      by (simp add: cleared_twice)
    from status_changed_failed [OF this] show ?thesis
      by (auto simp: failed_cleared)
  qed
  have "\<forall>p. ?h2 p = (if ?P p then (h p)\<lparr>nStatus := nStatus (h p) AND NOT BLOCK_FAILED_MASK\<rparr> else h p)"
    unfolding heap by (simp add: cleared_def)
  moreover have "dirty \<subseteq> ?d2" by blast
  ultimately show ?thesis using run changed by blast
qed

theorem reconsiderBlock_clears_exactly_witness:
  "walk_prev longBranchFailed 3 3 = None
   \<and> (\<exists>h' dirty'.
         reconsiderBlock longBranchIndex longBranchFailed {} 3 = Some (True, h', dirty')
       \<and> (\<forall>p. h' p =
            (if (p \<in> snd ` set longBranchIndex
                   \<and> GetAncestor longBranchFailed p (nHeight (longBranchFailed 3)) = Some 3)
                \<or> p \<in> ancestorsOf longBranchFailed 3
             then (longBranchFailed p)\<lparr>nStatus :=
                     nStatus (longBranchFailed p) AND NOT BLOCK_FAILED_MASK\<rparr>
             else longBranchFailed p))
       \<and> {} \<subseteq> dirty'
       \<and> (\<forall>p. nStatus (h' p) \<noteq> nStatus (longBranchFailed p) \<longrightarrow> p \<in> dirty'))"
proof -
  have h: "walk_prev longBranchFailed 3 3 = None"
    by code_simp
  from h reconsiderBlock_clears_exactly [OF h] show ?thesis
    by (rule conjI)
qed

subsection \<open>Writing and reading blocks\<close>



text \<open>The file \<open>i\<close> of a type has a live mapping of size \<open>fs\<close>.\<close>

definition mapped :: "DBPrivate \<Rightarrow> BlockType \<Rightarrow> nat \<Rightarrow> nat \<Rightarrow> bool" where
  "mapped db type i fs =
     (i < length (slots db type) \<and> (\<exists>df. slots db type ! i = Some df \<and> filesize df = fs))"


lemma u32_id: "n < 4294967296 \<Longrightarrow> u32 n = n"
  by (simp add: u32_def)

lemma length_htole32 [simp]: "length (htole32 n) = 4"
  by (simp add: htole32_def)

paragraph \<open>Bytes\<close>

lemma le_pageEnd: "n \<le> pageEnd n"
proof -
  have "n + 4095 < (n + 4095) div 4096 * 4096 + 4096"
    using div_mult_mod_eq [of "n + 4095" 4096] pos_mod_bound [of 4096 "int (n + 4095)"]
    by (metis add_less_cancel_left mod_less_divisor zero_less_numeral)
  then show ?thesis by (simp add: pageEnd_def)
qed



lemma fsize_memcpy [simp]: "fsize (memcpy f off bs) = fsize f"
  by (simp add: memcpy_def)

lemma readBytes_memcpy_same: "n = length bs \<Longrightarrow> readBytes (memcpy f off bs) off n = bs"
  by (auto simp: readBytes_def memcpy_def intro!: nth_equalityI)

lemma readBytes_memcpy_other:
  "off' + n \<le> off \<or> off + length bs \<le> off' \<Longrightarrow>
   readBytes (memcpy f off bs) off' n = readBytes f off' n"
  by (auto simp: readBytes_def memcpy_def)

lemma fdata_memcpy_outside:
  "j < off \<or> off + length bs \<le> j \<Longrightarrow> fdata (memcpy f off bs) j = fdata f j"
  by (auto simp: memcpy_def)

paragraph \<open>The mapper\<close>

lemma slots_setSlots [simp]: "slots (setSlots db t l) t = l"
  by (simp add: slots_def setSlots_def)

lemma setSlots_same [simp]: "setSlots db t (slots db t) = db"
  by (simp add: slots_def setSlots_def)

lemma setSlots_fields [simp]:
  "blocksDir (setSlots db t l) = blocksDir db"
  "vinfoBlockFile (setSlots db t l) = vinfoBlockFile db"
  "nLastBlockFile (setSlots db t l) = nLastBlockFile db"
  "setDirtyFileInfo (setSlots db t l) = setDirtyFileInfo db"
  "logDebug (setSlots db t l) = logDebug db"
  by (simp_all add: setSlots_def)

lemma mapFile_fields:
  assumes "mapFile db i t = (db1, r)"
  shows "blocksDir db1 = blocksDir db" "vinfoBlockFile db1 = vinfoBlockFile db"
    "nLastBlockFile db1 = nLastBlockFile db" "setDirtyFileInfo db1 = setDirtyFileInfo db"
    "logDebug db1 = logDebug db"
  using assms by (auto simp: mapFile_def Let_def split: option.splits if_splits)

lemma mapFile_mapped:
  assumes "mapFile db i t = (db1, Some df)"
  shows "mapped db1 t i (filesize df)"
  using assms
  by (auto simp: mapFile_def mapped_def Let_def nth_append split: option.splits if_splits)


lemma mapFile_viewSize:
  assumes "mapFile db i t = (db1, r)"
  shows "viewSize db t i = map_option filesize r"
proof -
  let ?list1 = "if length (slots db t) \<le> i
                then slots db t @ replicate (i + 10 - length (slots db t)) None else slots db t"
  have l: "?list1 ! i = liveMapping db t i"
    by (simp add: liveMapping_def nth_append)
  have "snd (mapFile db i t) =
      (case liveMapping db t i of
         Some df \<Rightarrow> Some df
       | None \<Rightarrow>
           (case blocksDir db (t, i) of
              None \<Rightarrow> None
            | Some f \<Rightarrow>
                if fsize f = 0 then None
                else Some \<lparr>filesize = fsize f,
                           readwrite = (if t = ForwardBlock \<and> i \<noteq> nLastBlockFile db
                                        then False else \<not> readonly f)\<rparr>))"
    unfolding mapFile_def Let_def l by (simp split: option.splits)
  with assms show ?thesis
    by (simp add: viewSize_def split: option.splits)
qed

lemma viewSize_cong:
  assumes "slots db1 t = slots db t" and "blocksDir db1 = blocksDir db"
  shows "viewSize db1 t i = viewSize db t i"
  using assms by (simp add: viewSize_def liveMapping_def split: option.splits)

lemma hasGrown_fields:
  assumes "(if t = ForwardBlock then fileHasGrown db i else revertFileHasGrown db i) = Inr db1"
  shows "blocksDir db1 = blocksDir db" "vinfoBlockFile db1 = vinfoBlockFile db"
    "nLastBlockFile db1 = nLastBlockFile db" "setDirtyFileInfo db1 = setDirtyFileInfo db"
    "logDebug db1 = logDebug db"
  using assms by (auto simp: fileHasGrown_def revertFileHasGrown_def split: if_splits)

text \<open>Two states agree on the file infos, the last file and the dirty files.\<close>

definition sameFiles :: "DBPrivate \<Rightarrow> DBPrivate \<Rightarrow> bool" where
  "sameFiles db db1 =
     (vinfoBlockFile db1 = vinfoBlockFile db \<and> nLastBlockFile db1 = nLastBlockFile db
      \<and> setDirtyFileInfo db1 = setDirtyFileInfo db)"

lemma growOnce_facts:
  assumes "growOnce db i t fs = Inr (db1, fs1)"
  shows "mapped db1 t i fs1" and "sameFiles db db1" and "started db1 = started db"
    and "\<exists>f. blocksDir db1 (t, i) = Some f \<and> fs1 \<le> fsize f"
proof -
  from assms obtain db2 f db3 df where
    g: "(if t = ForwardBlock then fileHasGrown (db\<lparr>logDebug := logDebug db @ [NeedsToBeResized t i]\<rparr>) i
         else revertFileHasGrown (db\<lparr>logDebug := logDebug db @ [NeedsToBeResized t i]\<rparr>) i) = Inr db2"
    and f: "blocksDir db2 (t, i) = Some f"
    and m: "mapFile (db2\<lparr>blocksDir := (blocksDir db2)((t, i) \<mapsto> resize_file f (fs + chunkSize t))\<rparr>) i t
              = (db3, Some df)"
    and r: "db1 = db3" "fs1 = filesize df"
    by (auto simp: growOnce_def Let_def split: sum.splits option.splits if_splits prod.splits)
  note gf = hasGrown_fields [OF g]
  note mf = mapFile_fields [OF m]
  show "mapped db1 t i fs1" using mapFile_mapped [OF m] r by simp
  show "sameFiles db db1" using gf mf r by (simp add: sameFiles_def)
  show "started db1 = started db" using gf mf r by (simp add: started_def)
  have "fs1 = fs + chunkSize t" using assms by (rule growOnce_size)
  then show "\<exists>f. blocksDir db1 (t, i) = Some f \<and> fs1 \<le> fsize f"
    using mf r by (simp add: resize_file_def)
qed

lemma growFile_facts:
  assumes "growFile db i t need fs = Inr (db1, fs1)" and "mapped db t i fs"
  shows "mapped db1 t i fs1 \<and> need < fs1 \<and> sameFiles db db1 \<and> started db1 = started db"
  using assms
proof (induction db i t need fs rule: growFile.induct)
  case (1 db i t need fs)
  note unfold = growFile.simps [of db i t need fs]
  show ?case
  proof (cases "fs \<le> need")
    case False
    with "1.prems" unfold have "db1 = db" "fs1 = fs" by simp_all
    with False "1.prems" show ?thesis by (simp add: sameFiles_def)
  next
    case True
    with "1.prems" unfold obtain db2 fs2 where
      g: "growOnce db i t fs = Inr (db2, fs2)" and rest: "growFile db2 i t need fs2 = Inr (db1, fs1)"
      by (auto split: sum.splits)
    note gf = growOnce_facts [OF g]
    from "1.IH" [OF True g refl rest gf(1)]
    show ?thesis using gf(2,3) by (simp add: sameFiles_def)
  qed
qed


lemma growOnce_dir:
  assumes "growOnce db i t fs = Inr (db1, fs1)"
  shows "\<exists>f. blocksDir db (t, i) = Some f
           \<and> blocksDir db1 = (blocksDir db)((t, i) \<mapsto> resize_file f (fs + chunkSize t))"
proof -
  from assms obtain db2 f db3 df where
    g: "(if t = ForwardBlock then fileHasGrown (db\<lparr>logDebug := logDebug db @ [NeedsToBeResized t i]\<rparr>) i
         else revertFileHasGrown (db\<lparr>logDebug := logDebug db @ [NeedsToBeResized t i]\<rparr>) i) = Inr db2"
    and f: "blocksDir db2 (t, i) = Some f"
    and m: "mapFile (db2\<lparr>blocksDir := (blocksDir db2)((t, i) \<mapsto> resize_file f (fs + chunkSize t))\<rparr>) i t
              = (db3, Some df)"
    and r: "db1 = db3"
    by (auto simp: growOnce_def Let_def split: sum.splits option.splits if_splits prod.splits)
  from hasGrown_fields(1) [OF g] have d: "blocksDir db2 = blocksDir db" by simp
  from mapFile_fields(1) [OF m] f d r show ?thesis by simp
qed

lemma growFile_dir:
  assumes "growFile db i t need fs = Inr (db1, fs1)" and "blocksDir db1 (t, i) = Some f1"
  shows "\<exists>f. blocksDir db (t, i) = Some f \<and> blocksDir db1 = (blocksDir db)((t, i) \<mapsto> f1)
           \<and> (fdata f = (\<lambda>j. 0) \<longrightarrow> fdata f1 = (\<lambda>j. 0))
           \<and> (fsize f \<le> fs \<longrightarrow> fsize f \<le> fsize f1 \<and> (\<forall>j<fsize f. fdata f1 j = fdata f j))"
  using assms
proof (induction db i t need fs rule: growFile.induct)
  case (1 db i t need fs)
  note unfold = growFile.simps [of db i t need fs]
  show ?case
  proof (cases "fs \<le> need")
    case False
    with "1.prems" unfold have "db1 = db" by simp
    with "1.prems"(2) show ?thesis by auto
  next
    case True
    with "1.prems" unfold obtain db2 fs2 where
      g: "growOnce db i t fs = Inr (db2, fs2)" and rest: "growFile db2 i t need fs2 = Inr (db1, fs1)"
      by (auto split: sum.splits)
    from growOnce_dir [OF g] obtain f where
      f: "blocksDir db (t, i) = Some f"
      and d2: "blocksDir db2 = (blocksDir db)((t, i) \<mapsto> resize_file f (fs + chunkSize t))"
      by blast
    have fs2: "fs2 = fs + chunkSize t" using g by (rule growOnce_size)
    let ?f2 = "resize_file f (fs + chunkSize t)"
    from "1.IH" [OF True g refl rest "1.prems"(2)] obtain f2 where
      f2: "blocksDir db2 (t, i) = Some f2"
      and d1: "blocksDir db1 = (blocksDir db2)((t, i) \<mapsto> f1)"
      and z: "fdata f2 = (\<lambda>j. 0) \<longrightarrow> fdata f1 = (\<lambda>j. 0)"
      and p: "fsize f2 \<le> fs2 \<longrightarrow> fsize f2 \<le> fsize f1 \<and> (\<forall>j<fsize f2. fdata f1 j = fdata f2 j)"
      by blast
    from f2 d2 have e: "f2 = ?f2" by simp
    have "blocksDir db1 = (blocksDir db)((t, i) \<mapsto> f1)"
      using d1 d2 by simp
    moreover have "fdata f1 = (\<lambda>j. 0)" if "fdata f = (\<lambda>j. 0)"
    proof -
      have "fdata ?f2 = (\<lambda>j. 0)"
        by (simp add: resize_file_def that cong: if_cong)
      with z e show ?thesis by simp
    qed
    moreover have "fsize f \<le> fsize f1 \<and> (\<forall>j<fsize f. fdata f1 j = fdata f j)" if "fsize f \<le> fs"
      using p that fs2 unfolding e by (simp add: resize_file_def)
    ultimately show ?thesis using f by blast
  qed
qed


lemma resizeInfo_nth:
  "i < n \<Longrightarrow> resizeInfo v n ! i = (if i < length v then v ! i else nullFileInfo)"
  by (auto simp: resizeInfo_def nth_append)

lemma length_resizeInfo [simp]: "length (resizeInfo v n) = n"
  by (simp add: resizeInfo_def)

lemma set_resizeInfo: "set (resizeInfo v n) \<subseteq> insert nullFileInfo (set v)"
  by (auto simp: resizeInfo_def dest: in_set_takeD)

lemma sizesInRange_resize:
  assumes "sizesInRange db"
  shows "sizesInRange (db\<lparr>vinfoBlockFile := resizeInfo (vinfoBlockFile db) n\<rparr>)"
  using assms set_resizeInfo [of "vinfoBlockFile db" n]
  by (auto simp: sizesInRange_def list_all_iff nullFileInfo_def)

lemma selectFile_facts:
  assumes "selectFile db n pos t = (newFile, db1)"
  shows "blocksDir db1 = blocksDir db" and "slots db1 t' = slots db t'"
    and "logDebug db1 = logDebug db" and "setDirtyFileInfo db1 = setDirtyFileInfo db"
    and "sizesInRange db \<Longrightarrow> sizesInRange db1"
    and "i < length (vinfoBlockFile db1) \<Longrightarrow> recordedSize db1 t' i = recordedSize db t' i"
proof -
  have *: "db1 = db \<or> (\<exists>k l. db1 = db\<lparr>vinfoBlockFile := resizeInfo (vinfoBlockFile db) k,
                                        nLastBlockFile := l\<rparr>)"
    using assms by (auto simp: selectFile_def split: if_splits) (metis DBPrivate.surjective DBPrivate.update_convs(5))
  then show "blocksDir db1 = blocksDir db" "slots db1 t' = slots db t'"
    "logDebug db1 = logDebug db" "setDirtyFileInfo db1 = setDirtyFileInfo db"
    by (auto simp: slots_def)
  show "sizesInRange db1" if "sizesInRange db"
    using * that sizesInRange_resize [OF that] by (auto simp: sizesInRange_def)
  show "recordedSize db1 t' i = recordedSize db t' i" if "i < length (vinfoBlockFile db1)"
    using * that by (auto simp: recordedSize_def resizeInfo_nth nullFileInfo_def)
qed


lemma startNewFile_facts:
  assumes "startNewFile db t i n = Inr db1"
  shows "vinfoBlockFile db1 = vinfoBlockFile db" and "nLastBlockFile db1 = nLastBlockFile db"
    and "setDirtyFileInfo db1 = setDirtyFileInfo db" and "slots db1 t' = slots db t'"
    and "started db1 = started db @ [StartingNewFile t i]"
  using assms
  by (auto simp: startNewFile_def Let_def slots_def started_def split: option.splits if_splits)

lemma startNewFile_dir:
  assumes "startNewFile db t i n = Inr db1"
  shows "blocksDir db1 = (blocksDir db)((t, i) \<mapsto>
           \<lparr>fsize = max (n + 8) (chunkSize t), fdata = (\<lambda>j. 0), readonly = False\<rparr>)"
  using assms by (auto simp: startNewFile_def Let_def split: option.splits if_splits)

lemma writeBlock_stages:
  assumes "writeBlock magic H db block pos t bh = Inr (db', pos', w)"
  obtains newFile db1 db2 db3 df db4 fileSize i where
     "length block < MAX_BLOCKFILE_SIZE - 8"
     "selectFile db (length block) pos t = (newFile, db1)"
     "i = (if t = ForwardBlock then nLastBlockFile db1 else nFile pos)"
     "i \<le> nLastBlockFile db1" "i < length (vinfoBlockFile db1)"
     "(if newFile \<or> (t = RevertBlock \<and> nUndoSize (vinfoBlockFile db1 ! i) = 0)
         then startNewFile db1 t i (length block) else Inr db1) = Inr db2"
     "mapFile db2 i t = (db3, Some df)" "readwrite df"
     "growFile db3 i t (u32 (recordedSize db1 t i + length block + 8
                                 + (if t = ForwardBlock then 0 else 32))) (filesize df)
          = Inr (db4, fileSize)"
     "writeFrame magic H db4 block i t bh fileSize = Inr (db', pos', w)"
proof -
  let ?n = "length block"
  have a: "?n < MAX_BLOCKFILE_SIZE - 8"
    using assms by (cases "?n < MAX_BLOCKFILE_SIZE - 8") (simp_all add: writeBlock_def Let_def)
  obtain newFile db1 where sel: "selectFile db ?n pos t = (newFile, db1)"
    by (cases "selectFile db ?n pos t")
  define i where "i = (if t = ForwardBlock then nLastBlockFile db1 else nFile pos)"
  define start where "start = (if newFile \<or> (t = RevertBlock \<and> nUndoSize (vinfoBlockFile db1 ! i) = 0)
         then startNewFile db1 t i ?n else Inr db1)"
  define need where "need = u32 (recordedSize db1 t i + ?n + 8 + (if t = ForwardBlock then 0 else 32))"
  have b: "i \<le> nLastBlockFile db1"
    using assms a sel by (cases "i \<le> nLastBlockFile db1") (simp_all add: writeBlock_def Let_def i_def)
  have c: "i < length (vinfoBlockFile db1)"
    using assms a sel b
    by (cases "i < length (vinfoBlockFile db1)") (simp_all add: writeBlock_def Let_def i_def)
  have W: "writeBlock magic H db block pos t bh =
      (case start of
         Inl e \<Rightarrow> Inl e
       | Inr db2 \<Rightarrow>
           (case mapFile db2 i t of
              (db3, None) \<Rightarrow> Inl FailedToOpenFile
            | (db3, Some df) \<Rightarrow>
                if \<not> readwrite df then Inl FileNotWritable
                else (case growFile db3 i t need (filesize df) of
                        Inl e \<Rightarrow> Inl e
                      | Inr (db4, fileSize) \<Rightarrow> writeFrame magic H db4 block i t bh fileSize)))"
    using a sel b c unfolding writeBlock_def Let_def start_def need_def recordedSize_def i_def
    by (simp cong: sum.case_cong option.case_cong prod.case_cong if_cong)
  from assms W obtain db2 where st: "start = Inr db2"
    by (cases start) simp_all
  obtain db3 m where mf: "mapFile db2 i t = (db3, m)"
    by (cases "mapFile db2 i t")
  from assms W st mf obtain df where m: "m = Some df"
    by (cases m) simp_all
  from assms W st mf m have rw: "readwrite df"
    by (cases "readwrite df") simp_all
  from assms W st mf m rw obtain r where g: "growFile db3 i t need (filesize df) = Inr r"
    by (cases "growFile db3 i t need (filesize df)") simp_all
  obtain db4 fileSize where r: "r = (db4, fileSize)"
    by (cases r)
  from assms W st mf m rw g r
  have wf: "writeFrame magic H db4 block i t bh fileSize = Inr (db', pos', w)"
    by simp
  show thesis
    using that [OF a sel i_def b c st [unfolded start_def] mf [unfolded m] rw
                   g [unfolded r need_def] wf] .
qed


text \<open>The file after the magic, the length and the payload were copied to offset \<open>p\<close>.\<close>

definition frame :: "byte list \<Rightarrow> DiskFile \<Rightarrow> nat \<Rightarrow> byte list \<Rightarrow> DiskFile" where
  "frame magic f p block =
     memcpy (memcpy (memcpy f p (take 4 magic)) (p + 4) (htole32 (length block))) (p + 8) block"

lemma frame_bytes:
  shows "fsize (frame magic f p block) = fsize f"
    and "length magic = 4 \<Longrightarrow> readBytes (frame magic f p block) p 4 = magic"
    and "readBytes (frame magic f p block) (p + 4) 4 = htole32 (length block)"
    and "readBytes (frame magic f p block) (p + 8) (length block) = block"
  by (simp_all add: frame_def readBytes_memcpy_same readBytes_memcpy_other)

lemma frame_outside:
  assumes "j < p \<or> p + 8 + length block \<le> j"
  shows "fdata (frame magic f p block) j = fdata f j"
  using assms by (auto simp: frame_def fdata_memcpy_outside)

lemma writeFrame_forward:
  assumes "writeFrame magic H db block i ForwardBlock bh fileSize = Inr (db', pos', w)"
    and "i < length (vinfoBlockFile db)"
  obtains f where
    "blocksDir db (ForwardBlock, i) = Some f"
    "blocksDir db' (ForwardBlock, i) = Some (frame magic f (recordedSize db ForwardBlock i) block)"
    "recordedSize db ForwardBlock i + 8 + length block \<le> min fileSize (fsize f)"
    "pos' = \<lparr>nFile = i, nPos = u32 (recordedSize db ForwardBlock i + 8)\<rparr>"
    "w = \<lparr>bufFile = (ForwardBlock, i), bufBegin = recordedSize db ForwardBlock i + 8,
          bufEnd = recordedSize db ForwardBlock i + 8 + length block\<rparr>"
    "recordedSize db' ForwardBlock i = u32 (recordedSize db ForwardBlock i + length block + 8)"
    "datafiles db' = datafiles db" "revertDatafiles db' = revertDatafiles db"
    "nLastBlockFile db' = nLastBlockFile db" "logDebug db' = logDebug db"
proof -
  have p: "recordedSize db ForwardBlock i = nSize (vinfoBlockFile db ! i)"
    using assms(2) by (simp add: recordedSize_def)
  from assms obtain f where f: "blocksDir db (ForwardBlock, i) = Some f"
    by (cases "blocksDir db (ForwardBlock, i)") (simp_all add: writeFrame_def Let_def)
  have nofault: "\<not> min fileSize (fsize f) < nSize (vinfoBlockFile db ! i) + 8 + length block"
  proof
    assume "min fileSize (fsize f) < nSize (vinfoBlockFile db ! i) + 8 + length block"
    from this f assms(1) show False by (simp add: writeFrame_def Let_def)
  qed
  then have fit: "recordedSize db ForwardBlock i + 8 + length block \<le> min fileSize (fsize f)"
    unfolding p by (simp add: not_less)
  from nofault f assms(1) have
    res: "db' = db\<lparr>blocksDir := (blocksDir db)((ForwardBlock, i) \<mapsto>
                       frame magic f (recordedSize db ForwardBlock i) block),
                   vinfoBlockFile := (vinfoBlockFile db)[i := (vinfoBlockFile db ! i)
                      \<lparr>nBlocks := nBlocks (vinfoBlockFile db ! i) + 1,
                       nSize := u32 (nSize (vinfoBlockFile db ! i) + length block + 8)\<rparr>],
                   setDirtyFileInfo := insert i (setDirtyFileInfo db)\<rparr>"
    and pos: "pos' = \<lparr>nFile = i, nPos = u32 (recordedSize db ForwardBlock i + 8)\<rparr>"
    and w: "w = \<lparr>bufFile = (ForwardBlock, i), bufBegin = recordedSize db ForwardBlock i + 8,
          bufEnd = recordedSize db ForwardBlock i + 8 + length block\<rparr>"
    unfolding p by (simp_all add: writeFrame_def Let_def frame_def)
  show thesis
    using assms(2) by (intro that [OF f _ fit pos w]) (simp_all add: res recordedSize_def)
qed



lemma writeFrame_others:
  assumes "writeFrame magic H db block i t bh fileSize = Inr (db', pos', w)" and "k \<noteq> (t, i)"
  shows "blocksDir db' k = blocksDir db k"
  using assms
  by (auto simp: writeFrame_def Let_def split: option.splits if_splits)



lemma selectFile_forward32:
  assumes "selectFile db n pos ForwardBlock = (newFile, db1)"
  shows "newFile = (noFileInfo db \<or> fileFull32 db n)"
    and "nLastBlockFile db1 =
           (if \<not> noFileInfo db \<and> fileFull32 db n then nLastBlockFile db + 1
            else nLastBlockFile db)"
  using assms by (auto simp: selectFile_def noFileInfo_def fileFull32_def split: if_splits)



paragraph \<open>A write into a fresh directory succeeds\<close>

lemma growOnce_succeeds:
  assumes "mapped db t i fs" and "blocksDir db (t, i) = Some f" and "\<not> readonly f"
    and "t = ForwardBlock \<longrightarrow> i = nLastBlockFile db"
  shows "\<exists>db1. growOnce db i t fs = Inr (db1, fs + chunkSize t)
           \<and> mapped db1 t i (fs + chunkSize t)
           \<and> blocksDir db1 (t, i) = Some (resize_file f (fs + chunkSize t))
           \<and> nLastBlockFile db1 = nLastBlockFile db
           \<and> vinfoBlockFile db1 = vinfoBlockFile db"
proof (cases t)
  case ForwardBlock
  with assms chunkSize_pos [of t] show ?thesis
    by (simp add: growOnce_def fileHasGrown_def mapFile_def mapped_def slots_def setSlots_def
          Let_def resize_file_def)
next
  case RevertBlock
  with assms chunkSize_pos [of t] show ?thesis
    by (simp add: growOnce_def revertFileHasGrown_def mapFile_def mapped_def slots_def setSlots_def
          Let_def resize_file_def)
qed

lemma growFile_succeeds:
  assumes "mapped db t i fs" and "blocksDir db (t, i) = Some f" and "\<not> readonly f"
    and "fs \<le> fsize f" and "t = ForwardBlock \<longrightarrow> i = nLastBlockFile db"
  shows "\<exists>db1 fs1 f1. growFile db i t need fs = Inr (db1, fs1)
           \<and> blocksDir db1 (t, i) = Some f1 \<and> fs1 \<le> fsize f1
           \<and> vinfoBlockFile db1 = vinfoBlockFile db"
  using assms
proof (induction db i t need fs arbitrary: f rule: growFile.induct)
  case (1 db i t need fs)
  note unfold = growFile.simps [of db i t need fs]
  show ?case
  proof (cases "fs \<le> need")
    case False
    with unfold "1.prems" show ?thesis by simp
  next
    case True
    from growOnce_succeeds [OF "1.prems"(1,2,3,5)] obtain db2 where
      g: "growOnce db i t fs = Inr (db2, fs + chunkSize t)"
      and m: "mapped db2 t i (fs + chunkSize t)"
      and b: "blocksDir db2 (t, i) = Some (resize_file f (fs + chunkSize t))"
      and n: "nLastBlockFile db2 = nLastBlockFile db"
      and v: "vinfoBlockFile db2 = vinfoBlockFile db"
      by blast
    have "\<exists>db1 fs1 f1. growFile db2 i t need (fs + chunkSize t) = Inr (db1, fs1)
           \<and> blocksDir db1 (t, i) = Some f1 \<and> fs1 \<le> fsize f1
           \<and> vinfoBlockFile db1 = vinfoBlockFile db2"
      using "1.prems"(3,5) n
      by (intro "1.IH" [OF True g refl m b]) (simp_all add: resize_file_def)
    with True g v unfold show ?thesis by simp
  qed
qed

lemma writeBlock_fresh:
  assumes "length block < MAX_BLOCKFILE_SIZE - 8"
    and "t = RevertBlock \<longrightarrow> bh \<noteq> None \<and> nFile pos = 0"
  shows "\<exists>db' w. writeBlock magic H freshDB block pos t bh = Inr (db', \<lparr>nFile = 0, nPos = 8\<rparr>, w)"
proof -
  let ?n = "length block"
  let ?size = "max (?n + 8) (chunkSize t)"
  let ?f = "\<lparr>fsize = ?size, fdata = (\<lambda>i. 0), readonly = False\<rparr>"
  define db1 where "db1 = freshDB\<lparr>vinfoBlockFile := resizeInfo [] 1\<rparr>"
  define db2 where "db2 = db1\<lparr>logDebug := [StartingNewFile t 0],
                               blocksDir := (blocksDir db1)((t, 0) \<mapsto> ?f)\<rparr>"
  define db3 where "db3 = setSlots db2 t ((replicate 10 None)[0 := Some \<lparr>filesize = ?size, readwrite = True\<rparr>])"
  have sel: "selectFile freshDB ?n pos t = (True, db1)"
    by (simp add: selectFile_def freshDB_def db1_def)
  have st: "startNewFile db1 t 0 ?n = Inr db2"
    by (simp add: startNewFile_def db1_def db2_def freshDB_def Let_def)
  have mf: "mapFile db2 0 t = (db3, Some \<lparr>filesize = ?size, readwrite = True\<rparr>)"
    by (simp add: mapFile_def db3_def db2_def db1_def freshDB_def slots_def Let_def)
  have m3: "mapped db3 t 0 ?size"
    using mapFile_mapped [OF mf] by simp
  have b3: "blocksDir db3 (t, 0) = Some ?f"
    by (simp add: db3_def db2_def)
  have n3: "nLastBlockFile db3 = 0" "vinfoBlockFile db3 = resizeInfo [] 1"
    by (simp_all add: db3_def db2_def db1_def freshDB_def)
  let ?need = "u32 (?n + 8 + (if t = ForwardBlock then 0 else 32))"
  from growFile_succeeds [OF m3 b3, of ?need] n3 obtain db4 fs4 f4 where
    g: "growFile db3 0 t ?need ?size = Inr (db4, fs4)"
    and b4: "blocksDir db4 (t, 0) = Some f4" and s4: "fs4 \<le> fsize f4"
    and v4: "vinfoBlockFile db4 = resizeInfo [] 1"
    by auto
  from growFile_facts [OF g m3] have big: "?need < fs4" by simp
  have small: "?n + 40 < 4294967296"
    using assms(1) by (simp add: MAX_BLOCKFILE_SIZE_def)
  then have need: "?need = ?n + 8 + (if t = ForwardBlock then 0 else 32)"
    by (simp add: u32_def)
  have info: "vinfoBlockFile db4 ! 0 = nullFileInfo"
    by (simp add: v4 resizeInfo_def)
  have "\<exists>db' w. writeFrame magic H db4 block 0 t bh fs4 = Inr (db', \<lparr>nFile = 0, nPos = 8\<rparr>, w)"
  proof (cases t)
    case ForwardBlock
    with big need s4 b4 info show ?thesis
      by (simp add: writeFrame_def Let_def nullFileInfo_def u32_def)
  next
    case RevertBlock
    with assms(2) obtain hash where "bh = Some hash" by auto
    with RevertBlock big need s4 b4 info show ?thesis
      by (simp add: writeFrame_def Let_def nullFileInfo_def u32_def)
  qed
  moreover have "writeBlock magic H freshDB block pos t bh = writeFrame magic H db4 block 0 t bh fs4"
  proof -
    have i: "(if t = ForwardBlock then nLastBlockFile db1 else nFile pos) = 0"
      using assms(2) by (cases t) (simp_all add: db1_def freshDB_def)
    have v1: "vinfoBlockFile db1 ! 0 = nullFileInfo" "vinfoBlockFile db1 \<noteq> []"
      "nLastBlockFile db1 = 0"
      by (simp_all add: db1_def resizeInfo_def freshDB_def)
    show ?thesis
    proof (cases t)
      case ForwardBlock
      show ?thesis
        unfolding writeBlock_def Let_def
        using assms(1) sel v1 st mf g unfolding ForwardBlock
        by (simp add: nullFileInfo_def)
    next
      case RevertBlock
      with assms(2) have "nFile pos = 0" by simp
      then show ?thesis
        unfolding writeBlock_def Let_def
        using assms(1) sel v1 st mf g unfolding RevertBlock
        by (simp add: nullFileInfo_def)
    qed
  qed
  ultimately show ?thesis by simp
qed







paragraph \<open>The choice of the file\<close>

lemma writeBlock_forward:
  assumes w: "writeBlock magic H db block pos ForwardBlock bh = Inr (db', pos', w)"
  obtains f i used where
    "i = nFile pos'" "i = nLastBlockFile db'" "used = recordedSize db ForwardBlock i"
    "nLastBlockFile db' =
       (if \<not> noFileInfo db \<and> fileFull32 db (length block) then nLastBlockFile db + 1
        else nLastBlockFile db)"
    "started db' = started db @
       (if noFileInfo db \<or> fileFull32 db (length block)
        then [StartingNewFile ForwardBlock i] else [])"
    "nPos pos' = u32 (used + 8)"
    "recordedSize db' ForwardBlock i = u32 (used + length block + 8)"
    "\<forall>k. k \<noteq> (ForwardBlock, i) \<longrightarrow> blocksDir db' k = blocksDir db k"
    "blocksDir db' (ForwardBlock, i) = Some (frame magic f used block)"
    "used + 8 + length block \<le> fsize f"
    "noFileInfo db \<or> fileFull32 db (length block) \<longrightarrow> fdata f = (\<lambda>j. 0)"
    "\<not> (noFileInfo db \<or> fileFull32 db (length block)) \<longrightarrow>
       (\<exists>old. blocksDir db (ForwardBlock, i) = Some old
          \<and> (\<forall>vsize. viewSize db ForwardBlock i = Some vsize \<and> fsize old \<le> vsize
                \<longrightarrow> fsize old \<le> fsize f \<and> (\<forall>j<fsize old. fdata f j = fdata old j)))"
proof -
  let ?n = "length block"
  let ?new = "noFileInfo db \<or> fileFull32 db ?n"
  from w obtain newFile db1 db2 db3 df db4 fileSize i where
    a: "?n < MAX_BLOCKFILE_SIZE - 8"
    and sel: "selectFile db ?n pos ForwardBlock = (newFile, db1)"
    and i: "i = (if ForwardBlock = ForwardBlock then nLastBlockFile db1 else nFile pos)"
    and c: "i < length (vinfoBlockFile db1)"
    and st: "(if newFile \<or> (ForwardBlock = RevertBlock \<and> nUndoSize (vinfoBlockFile db1 ! i) = 0)
         then startNewFile db1 ForwardBlock i ?n else Inr db1) = Inr db2"
    and mf: "mapFile db2 i ForwardBlock = (db3, Some df)"
    and g: "growFile db3 i ForwardBlock (u32 (recordedSize db1 ForwardBlock i + ?n + 8
                                 + (if ForwardBlock = ForwardBlock then 0 else 32))) (filesize df)
          = Inr (db4, fileSize)"
    and wf: "writeFrame magic H db4 block i ForwardBlock bh fileSize = Inr (db', pos', w)"
    by (rule writeBlock_stages)
  note sf = selectFile_forward32 [OF sel]
  have i1: "i = nLastBlockFile db1" using i by simp
  have dir1: "blocksDir db1 = blocksDir db" and sl1: "slots db1 ForwardBlock = slots db ForwardBlock"
    using selectFile_facts(1,2) [OF sel] by simp_all
  have s1: "started db1 = started db"
    using selectFile_facts(3) [OF sel] by (simp add: started_def)
  have rs1: "recordedSize db1 ForwardBlock i = recordedSize db ForwardBlock i"
    by (rule selectFile_facts(6) [OF sel c])
  have st': "(if newFile then startNewFile db1 ForwardBlock i ?n else Inr db1) = Inr db2"
    using st by simp
  have s2: "started db2 = started db @ (if newFile then [StartingNewFile ForwardBlock i] else [])"
    and n2: "nLastBlockFile db2 = nLastBlockFile db1"
    and v2: "vinfoBlockFile db2 = vinfoBlockFile db1"
    using st' s1 startNewFile_facts(1,2,5) [of db1 ForwardBlock i ?n db2]
    by (auto split: if_splits)
  have s3: "started db3 = started db2" and n3: "nLastBlockFile db3 = nLastBlockFile db2"
    and v3: "vinfoBlockFile db3 = vinfoBlockFile db2" and dir3: "blocksDir db3 = blocksDir db2"
    using mapFile_fields [OF mf] by (simp_all add: started_def)
  from growFile_facts [OF g mapFile_mapped [OF mf]]
  have s4: "started db4 = started db3" and n4: "nLastBlockFile db4 = nLastBlockFile db3"
    and v4: "vinfoBlockFile db4 = vinfoBlockFile db3"
    by (simp_all add: sameFiles_def)
  have c4: "i < length (vinfoBlockFile db4)"
    using c v2 v3 v4 by simp
  have "recordedSize db4 ForwardBlock i = recordedSize db1 ForwardBlock i"
    using v2 v3 v4 by (simp add: recordedSize_def)
  with rs1 have rs4: "recordedSize db4 ForwardBlock i = recordedSize db ForwardBlock i"
    by simp
  from wf c4 obtain f4 where
    f4: "blocksDir db4 (ForwardBlock, i) = Some f4"
    and f': "blocksDir db' (ForwardBlock, i)
              = Some (frame magic f4 (recordedSize db4 ForwardBlock i) block)"
    and fit: "recordedSize db4 ForwardBlock i + 8 + ?n \<le> min fileSize (fsize f4)"
    and pos: "pos' = \<lparr>nFile = i, nPos = u32 (recordedSize db4 ForwardBlock i + 8)\<rparr>"
    and rec: "recordedSize db' ForwardBlock i = u32 (recordedSize db4 ForwardBlock i + ?n + 8)"
    and n': "nLastBlockFile db' = nLastBlockFile db4" and l': "logDebug db' = logDebug db4"
    by (rule writeFrame_forward)
  have s': "started db' = started db4"
    using l' by (simp add: started_def)
  from growFile_dir [OF g f4] obtain f3 where
    f3: "blocksDir db3 (ForwardBlock, i) = Some f3"
    and d4: "blocksDir db4 = (blocksDir db3)((ForwardBlock, i) \<mapsto> f4)"
    and z: "fdata f3 = (\<lambda>j. 0) \<longrightarrow> fdata f4 = (\<lambda>j. 0)"
    and p: "fsize f3 \<le> filesize df
            \<longrightarrow> fsize f3 \<le> fsize f4 \<and> (\<forall>j<fsize f3. fdata f4 j = fdata f3 j)"
    by blast
  have d2: "\<forall>k. k \<noteq> (ForwardBlock, i) \<longrightarrow> blocksDir db2 k = blocksDir db k"
  proof (cases newFile)
    case True
    with st' have "startNewFile db1 ForwardBlock i ?n = Inr db2" by simp
    from startNewFile_dir [OF this] dir1 show ?thesis by simp
  next
    case False
    with st' dir1 show ?thesis by simp
  qed
  have others: "\<forall>k. k \<noteq> (ForwardBlock, i) \<longrightarrow> blocksDir db' k = blocksDir db k"
  proof (intro allI impI)
    fix k assume k: "k \<noteq> (ForwardBlock, i)"
    from writeFrame_others [OF wf k] d4 dir3 d2 k show "blocksDir db' k = blocksDir db k"
      by simp
  qed
  show thesis
  proof (rule that [of i "recordedSize db ForwardBlock i" f4])
    show "i = nFile pos'" using pos by simp
    show "i = nLastBlockFile db'" using n' n4 n3 n2 i1 by simp
    show "recordedSize db ForwardBlock i = recordedSize db ForwardBlock i" ..
    show "nLastBlockFile db' =
       (if \<not> noFileInfo db \<and> fileFull32 db ?n then nLastBlockFile db + 1
        else nLastBlockFile db)"
      using n' n4 n3 n2 sf(2) by simp
    show "started db' = started db @ (if ?new then [StartingNewFile ForwardBlock i] else [])"
      using s' s4 s3 s2 sf(1) by simp
    show "nPos pos' = u32 (recordedSize db ForwardBlock i + 8)"
      using pos rs4 by simp
    show "recordedSize db' ForwardBlock i = u32 (recordedSize db ForwardBlock i + ?n + 8)"
      using rec rs4 by simp
    show "\<forall>k. k \<noteq> (ForwardBlock, i) \<longrightarrow> blocksDir db' k = blocksDir db k"
      by (rule others)
    show "blocksDir db' (ForwardBlock, i) = Some (frame magic f4 (recordedSize db ForwardBlock i) block)"
      using f' rs4 by simp
    show "recordedSize db ForwardBlock i + 8 + ?n \<le> fsize f4"
      using fit rs4 by simp
    show "?new \<longrightarrow> fdata f4 = (\<lambda>j. 0)"
    proof
      assume that: "?new"
      from that sf(1) st' have "startNewFile db1 ForwardBlock i ?n = Inr db2" by simp
      from startNewFile_dir [OF this] dir3 f3 have "fdata f3 = (\<lambda>j. 0)" by auto
      with z show "fdata f4 = (\<lambda>j. 0)" by simp
    qed
    show "\<not> ?new \<longrightarrow> (\<exists>old. blocksDir db (ForwardBlock, i) = Some old
          \<and> (\<forall>vsize. viewSize db ForwardBlock i = Some vsize \<and> fsize old \<le> vsize
                \<longrightarrow> fsize old \<le> fsize f4 \<and> (\<forall>j<fsize old. fdata f4 j = fdata old j)))"
    proof
      assume that: "\<not> ?new"
      from that sf(1) st' have e: "db2 = db1" by simp
      from f3 dir3 dir1 e have old: "blocksDir db (ForwardBlock, i) = Some f3" by simp
      from mapFile_viewSize [OF mf] e have "viewSize db1 ForwardBlock i = Some (filesize df)"
        by simp
      with viewSize_cong [OF sl1 dir1, of i]
      have "viewSize db ForwardBlock i = Some (filesize df)" by simp
      with old p show "\<exists>old. blocksDir db (ForwardBlock, i) = Some old
          \<and> (\<forall>vsize. viewSize db ForwardBlock i = Some vsize \<and> fsize old \<le> vsize
                \<longrightarrow> fsize old \<le> fsize f4 \<and> (\<forall>j<fsize old. fdata f4 j = fdata old j))"
        by auto
    qed
  qed
qed

lemma writeBlock_cannot_map:
  assumes "\<not> noFileInfo db" and "\<not> fileFull32 db (length block)"
    and "length block < MAX_BLOCKFILE_SIZE - 8"
    and "viewSize db ForwardBlock (nLastBlockFile db) = None"
  shows "writeBlock magic H db block pos ForwardBlock bh = Inl FailedToOpenFile"
proof -
  have sel: "selectFile db (length block) pos ForwardBlock = (False, db)"
    using assms(1,2) by (simp add: selectFile_def noFileInfo_def fileFull32_def)
  obtain db3 r where mf: "mapFile db (nLastBlockFile db) ForwardBlock = (db3, r)"
    by (cases "mapFile db (nLastBlockFile db) ForwardBlock")
  from mapFile_viewSize [OF mf] assms(4) have "r = None" by simp
  with mf sel assms(1,3) show ?thesis
    by (simp add: writeBlock_def Let_def noFileInfo_def)
qed

lemma fileFull32_plain:
  assumes "nSize (vinfoBlockFile db ! nLastBlockFile db) + n + 8 < 4294967296"
  shows "fileFull32 db n = fileFull db n"
  using assms by (simp add: fileFull32_def fileFull_def u32_def)

text \<open>
  C5, as claimed: every block write appends to the last blk file, and a new file is
  opened when no files exist yet. In \<open>filesGone\<close> no file exists in the directory,
  while the info of the blk file 0 is recorded and the file is not full: the write
  starts no new file and ends in the error \<^verbatim>\<open>Failed to open file\<close>.
\<close>

theorem writeBlock_missing_file_throws:
  "(\<forall>k. blocksDir filesGone k = None)
   \<and> \<not> noFileInfo filesGone
   \<and> \<not> fileFull filesGone (length exampleBlock)
   \<and> writeBlock mainnetMagic toyHash filesGone exampleBlock \<lparr>nFile = 0, nPos = 0\<rparr> ForwardBlock None
       = Inl FailedToOpenFile"
proof -
  have n: "length exampleBlock < MAX_BLOCKFILE_SIZE - 8" and n81: "length exampleBlock = 81"
    by (simp_all add: exampleBlock_def MAX_BLOCKFILE_SIZE_def)
  have gone: "\<not> noFileInfo filesGone" "\<not> fileFull32 filesGone (length exampleBlock)"
    "\<not> fileFull filesGone (length exampleBlock)"
    "viewSize filesGone ForwardBlock (nLastBlockFile filesGone) = None"
    "\<forall>k. blocksDir filesGone k = None"
    by (simp_all add: noFileInfo_def fileFull32_def fileFull_def viewSize_def liveMapping_def
          slots_def filesGone_def freshDB_def n81 u32_def MAX_BLOCKFILE_SIZE_def)
  from writeBlock_cannot_map [OF gone(1,2) n gone(4)] gone show ?thesis
    by blast
qed

text \<open>
  The test for a full file is computed in 32 bits. With a used size of
  \<open>4294967288\<close> (as a scan over a damaged file can record it) the plain sum
  exceeds \<open>MAX_BLOCKFILE_SIZE\<close>, the 32-bit sum does not, and no new file is chosen.
\<close>

lemma selectFile_full_test_wraps:
  "fileFull (freshDB\<lparr>vinfoBlockFile := [\<lparr>nBlocks = 1, nSize = 4294967288, nUndoSize = 0\<rparr>]\<rparr>) 81
   \<and> \<not> fileFull32 (freshDB\<lparr>vinfoBlockFile := [\<lparr>nBlocks = 1, nSize = 4294967288, nUndoSize = 0\<rparr>]\<rparr>) 81
   \<and> fst (selectFile (freshDB\<lparr>vinfoBlockFile := [\<lparr>nBlocks = 1, nSize = 4294967288, nUndoSize = 0\<rparr>]\<rparr>)
              81 pos ForwardBlock) = False"
  by (simp add: fileFull_def fileFull32_def selectFile_def freshDB_def u32_def MAX_BLOCKFILE_SIZE_def)

text \<open>
  C5, amended. A block write that returns has written the frame (the magic, the
  little-endian length, the payload) into the last blk file, the file whose number is
  \<open>nLastBlockFile\<close> after the call, at the used size recorded for that file; the used
  size advances past the frame, the position returned is 8 past the old used size,
  and no other file changes. A new file is started exactly when no file info is
  recorded for the last file number, or the used size of the last file plus the
  payload plus 8 exceeds \<open>MAX_BLOCKFILE_SIZE\<close>, a sum the code computes in 32 bits
  and which is the plain sum whenever that is below \<open>2^32\<close>; only in the second case
  the number of the last file grows, by one. A file that was started holds nothing
  but the frame. In a file that was there before, the bytes outside the frame stay
  as they were, provided the view of the file is not one mapped when the file was
  shorter (the loop that grows the file resizes it to the size of the view plus a
  chunk). Not every block write returns: when file info is recorded, the file is not
  full and the last blk file cannot be mapped (missing or empty, and no mapping of
  it alive), the write starts no new file and ends in \<^verbatim>\<open>Failed to open file\<close>.
\<close>

theorem writeBlock_file_choice:
  "(length magic = 4 \<and> writeBlock magic H db block pos ForwardBlock bh = Inr (db', pos', w)
    \<longrightarrow> nFile pos' = nLastBlockFile db'
      \<and> nLastBlockFile db' =
            (if \<not> noFileInfo db \<and> fileFull32 db (length block) then nLastBlockFile db + 1
             else nLastBlockFile db)
      \<and> started db' = started db @
            (if noFileInfo db \<or> fileFull32 db (length block)
             then [StartingNewFile ForwardBlock (nFile pos')] else [])
      \<and> nPos pos' = u32 (recordedSize db ForwardBlock (nFile pos') + 8)
      \<and> recordedSize db' ForwardBlock (nFile pos')
            = u32 (recordedSize db ForwardBlock (nFile pos') + length block + 8)
      \<and> (\<forall>k. k \<noteq> (ForwardBlock, nFile pos') \<longrightarrow> blocksDir db' k = blocksDir db k)
      \<and> (\<exists>f. blocksDir db' (ForwardBlock, nFile pos') = Some f
            \<and> recordedSize db ForwardBlock (nFile pos') + 8 + length block \<le> fsize f
            \<and> readBytes f (recordedSize db ForwardBlock (nFile pos')) 4 = magic
            \<and> readBytes f (recordedSize db ForwardBlock (nFile pos') + 4) 4
                  = htole32 (length block)
            \<and> readBytes f (recordedSize db ForwardBlock (nFile pos') + 8) (length block) = block
            \<and> (if noFileInfo db \<or> fileFull32 db (length block)
                then \<forall>j. j < recordedSize db ForwardBlock (nFile pos')
                          \<or> recordedSize db ForwardBlock (nFile pos') + 8 + length block \<le> j
                        \<longrightarrow> fdata f j = 0
                else \<exists>old. blocksDir db (ForwardBlock, nFile pos') = Some old
                       \<and> (\<forall>vsize j. viewSize db ForwardBlock (nFile pos') = Some vsize
                               \<and> fsize old \<le> vsize \<and> j < fsize old
                               \<and> (j < recordedSize db ForwardBlock (nFile pos')
                                    \<or> recordedSize db ForwardBlock (nFile pos') + 8 + length block \<le> j)
                             \<longrightarrow> fdata f j = fdata old j))))
   \<and> (nSize (vinfoBlockFile db ! nLastBlockFile db) + length block + 8 < 4294967296
        \<longrightarrow> fileFull32 db (length block) = fileFull db (length block))
   \<and> (\<not> noFileInfo db \<and> \<not> fileFull32 db (length block)
        \<and> length block < MAX_BLOCKFILE_SIZE - 8
        \<and> viewSize db ForwardBlock (nLastBlockFile db) = None
        \<longrightarrow> writeBlock magic H db block pos ForwardBlock bh = Inl FailedToOpenFile)"
proof (intro conjI impI)
  assume "nSize (vinfoBlockFile db ! nLastBlockFile db) + length block + 8 < 4294967296"
  then show "fileFull32 db (length block) = fileFull db (length block)"
    by (rule fileFull32_plain)
next
  assume "\<not> noFileInfo db \<and> \<not> fileFull32 db (length block)
        \<and> length block < MAX_BLOCKFILE_SIZE - 8
        \<and> viewSize db ForwardBlock (nLastBlockFile db) = None"
  then show "writeBlock magic H db block pos ForwardBlock bh = Inl FailedToOpenFile"
    by (intro writeBlock_cannot_map) simp_all
next
  assume asm: "length magic = 4 \<and> writeBlock magic H db block pos ForwardBlock bh = Inr (db', pos', w)"
  let ?n = "length block"
  let ?new = "noFileInfo db \<or> fileFull32 db ?n"
  from asm have wr: "writeBlock magic H db block pos ForwardBlock bh = Inr (db', pos', w)"
    by simp
  from wr obtain f i used where
    i: "i = nFile pos'" and last: "i = nLastBlockFile db'"
    and used: "used = recordedSize db ForwardBlock i"
    and n': "nLastBlockFile db' =
       (if \<not> noFileInfo db \<and> fileFull32 db ?n then nLastBlockFile db + 1 else nLastBlockFile db)"
    and s': "started db' = started db @ (if ?new then [StartingNewFile ForwardBlock i] else [])"
    and pos: "nPos pos' = u32 (used + 8)"
    and rec: "recordedSize db' ForwardBlock i = u32 (used + ?n + 8)"
    and others: "\<forall>k. k \<noteq> (ForwardBlock, i) \<longrightarrow> blocksDir db' k = blocksDir db k"
    and fl: "blocksDir db' (ForwardBlock, i) = Some (frame magic f used block)"
    and fit: "used + 8 + ?n \<le> fsize f"
    and zero: "?new \<longrightarrow> fdata f = (\<lambda>j. 0)"
    and kept: "\<not> ?new \<longrightarrow>
       (\<exists>old. blocksDir db (ForwardBlock, i) = Some old
          \<and> (\<forall>vsize. viewSize db ForwardBlock i = Some vsize \<and> fsize old \<le> vsize
                \<longrightarrow> fsize old \<le> fsize f \<and> (\<forall>j<fsize old. fdata f j = fdata old j)))"
    by (rule writeBlock_forward)
  have m: "length magic = 4" using asm by simp
  show "nFile pos' = nLastBlockFile db'" using i last by simp
  show "nLastBlockFile db' =
            (if \<not> noFileInfo db \<and> fileFull32 db ?n then nLastBlockFile db + 1
             else nLastBlockFile db)"
    by (rule n')
  show "started db' = started db @ (if ?new then [StartingNewFile ForwardBlock (nFile pos')] else [])"
    using s' i by simp
  show "nPos pos' = u32 (recordedSize db ForwardBlock (nFile pos') + 8)"
    using pos used i by simp
  show "recordedSize db' ForwardBlock (nFile pos')
            = u32 (recordedSize db ForwardBlock (nFile pos') + ?n + 8)"
    using rec used i by simp
  show "\<forall>k. k \<noteq> (ForwardBlock, nFile pos') \<longrightarrow> blocksDir db' k = blocksDir db k"
    using others i by simp
  let ?F = "frame magic f used block"
  have rest: "(if ?new
                then \<forall>j. j < used \<or> used + 8 + ?n \<le> j \<longrightarrow> fdata ?F j = 0
                else \<exists>old. blocksDir db (ForwardBlock, i) = Some old
                       \<and> (\<forall>vsize j. viewSize db ForwardBlock i = Some vsize
                               \<and> fsize old \<le> vsize \<and> j < fsize old
                               \<and> (j < used \<or> used + 8 + ?n \<le> j)
                             \<longrightarrow> fdata ?F j = fdata old j))"
  proof (cases ?new)
    case True
    from zero True have "fdata f j = 0" for j by simp
    with True show ?thesis by (simp add: frame_outside)
  next
    case False
    from kept False obtain old where
      old: "blocksDir db (ForwardBlock, i) = Some old"
      and k: "\<forall>vsize. viewSize db ForwardBlock i = Some vsize \<and> fsize old \<le> vsize
                \<longrightarrow> fsize old \<le> fsize f \<and> (\<forall>j<fsize old. fdata f j = fdata old j)"
      by blast
    have "\<forall>vsize j. viewSize db ForwardBlock i = Some vsize
                               \<and> fsize old \<le> vsize \<and> j < fsize old
                               \<and> (j < used \<or> used + 8 + ?n \<le> j)
                             \<longrightarrow> fdata ?F j = fdata old j"
      using k by (auto simp: frame_outside)
    with False old show ?thesis by simp
  qed
  show "\<exists>f. blocksDir db' (ForwardBlock, nFile pos') = Some f
            \<and> recordedSize db ForwardBlock (nFile pos') + 8 + ?n \<le> fsize f
            \<and> readBytes f (recordedSize db ForwardBlock (nFile pos')) 4 = magic
            \<and> readBytes f (recordedSize db ForwardBlock (nFile pos') + 4) 4 = htole32 ?n
            \<and> readBytes f (recordedSize db ForwardBlock (nFile pos') + 8) ?n = block
            \<and> (if ?new
                then \<forall>j. j < recordedSize db ForwardBlock (nFile pos')
                          \<or> recordedSize db ForwardBlock (nFile pos') + 8 + ?n \<le> j
                        \<longrightarrow> fdata f j = 0
                else \<exists>old. blocksDir db (ForwardBlock, nFile pos') = Some old
                       \<and> (\<forall>vsize j. viewSize db ForwardBlock (nFile pos') = Some vsize
                               \<and> fsize old \<le> vsize \<and> j < fsize old
                               \<and> (j < recordedSize db ForwardBlock (nFile pos')
                                    \<or> recordedSize db ForwardBlock (nFile pos') + 8 + ?n \<le> j)
                             \<longrightarrow> fdata f j = fdata old j))"
    unfolding i [symmetric] used [symmetric]
    using fl fit rest m by (intro exI [of _ ?F]) (simp add: frame_bytes)
qed

theorem writeBlock_file_choice_witness:
  "\<exists>db' w.
     length mainnetMagic = 4
     \<and> writeBlock mainnetMagic toyHash freshDB exampleBlock \<lparr>nFile = 0, nPos = 0\<rparr> ForwardBlock None
         = Inr (db', \<lparr>nFile = 0, nPos = 8\<rparr>, w)
     \<and> noFileInfo freshDB
     \<and> nLastBlockFile db' = 0
     \<and> started db' = [StartingNewFile ForwardBlock 0]
     \<and> recordedSize db' ForwardBlock 0 = 89
     \<and> (\<exists>f. blocksDir db' (ForwardBlock, 0) = Some f
            \<and> readBytes f 0 4 = mainnetMagic
            \<and> readBytes f 4 4 = htole32 81
            \<and> readBytes f 8 81 = exampleBlock
            \<and> fdata f 89 = 0)
     \<and> \<not> noFileInfo filesGone \<and> \<not> fileFull32 filesGone (length exampleBlock)
     \<and> length exampleBlock < MAX_BLOCKFILE_SIZE - 8
     \<and> viewSize filesGone ForwardBlock (nLastBlockFile filesGone) = None
     \<and> writeBlock mainnetMagic toyHash filesGone exampleBlock \<lparr>nFile = 0, nPos = 0\<rparr> ForwardBlock None
         = Inl FailedToOpenFile
     \<and> nSize (vinfoBlockFile filesGone ! nLastBlockFile filesGone) + length exampleBlock + 8
           < 4294967296
     \<and> fileFull32 filesGone (length exampleBlock) = fileFull filesGone (length exampleBlock)"
proof -
  have m: "length mainnetMagic = 4"
    by (simp add: mainnetMagic_def)
  have n: "length exampleBlock < MAX_BLOCKFILE_SIZE - 8" and n81: "length exampleBlock = 81"
    by (simp_all add: exampleBlock_def MAX_BLOCKFILE_SIZE_def)
  from writeBlock_fresh [OF n, of ForwardBlock None "\<lparr>nFile = 0, nPos = 0\<rparr>" mainnetMagic toyHash]
  obtain db' w where
    wr: "writeBlock mainnetMagic toyHash freshDB exampleBlock \<lparr>nFile = 0, nPos = 0\<rparr> ForwardBlock None
         = Inr (db', \<lparr>nFile = 0, nPos = 8\<rparr>, w)"
    by auto
  have fresh: "noFileInfo freshDB" "started freshDB = []" "recordedSize freshDB ForwardBlock 0 = 0"
    "nLastBlockFile freshDB = 0"
    by (simp_all add: noFileInfo_def started_def recordedSize_def freshDB_def)
  have gone: "\<not> noFileInfo filesGone" "\<not> fileFull32 filesGone (length exampleBlock)"
    "viewSize filesGone ForwardBlock (nLastBlockFile filesGone) = None"
    "nSize (vinfoBlockFile filesGone ! nLastBlockFile filesGone) + length exampleBlock + 8
           < 4294967296"
    by (simp_all add: noFileInfo_def fileFull32_def viewSize_def liveMapping_def slots_def
          filesGone_def freshDB_def n81 u32_def MAX_BLOCKFILE_SIZE_def)
  note first = writeBlock_file_choice [where magic = mainnetMagic and H = toyHash and db = freshDB
      and block = exampleBlock and pos = "\<lparr>nFile = 0, nPos = 0\<rparr>" and bh = None and db' = db'
      and pos' = "\<lparr>nFile = 0, nPos = 8\<rparr>" and w = w]
  note second = writeBlock_file_choice [where magic = mainnetMagic and H = toyHash and db = filesGone
      and block = exampleBlock and pos = "\<lparr>nFile = 0, nPos = 0\<rparr>" and bh = None]
  from first m wr fresh have
    a: "nLastBlockFile db' = 0" "started db' = [StartingNewFile ForwardBlock 0]"
      "recordedSize db' ForwardBlock 0 = 89"
    and b: "\<exists>f. blocksDir db' (ForwardBlock, 0) = Some f
            \<and> readBytes f 0 4 = mainnetMagic
            \<and> readBytes f 4 4 = htole32 81
            \<and> readBytes f 8 81 = exampleBlock
            \<and> fdata f 89 = 0"
    by (auto simp: n81 u32_def)
  from second gone n have
    c: "writeBlock mainnetMagic toyHash filesGone exampleBlock \<lparr>nFile = 0, nPos = 0\<rparr> ForwardBlock None
         = Inl FailedToOpenFile"
    and d: "fileFull32 filesGone (length exampleBlock) = fileFull filesGone (length exampleBlock)"
    by blast+
  from m wr fresh(1) a b gone n c d show ?thesis
    by blast
qed

subsection \<open>Failing reads\<close>

lemma viewBytes_1: "viewBytes f off 1 = [if off < fsize f then fdata f off else 0]"
  by (simp add: viewBytes_def)

lemma viewBytes_4:
  "viewBytes f off 4 =
     [if off < fsize f then fdata f off else 0,
      if off + 1 < fsize f then fdata f (off + 1) else 0,
      if off + 2 < fsize f then fdata f (off + 2) else 0,
      if off + 3 < fsize f then fdata f (off + 3) else 0]"
  by (simp add: viewBytes_def upt_rec numeral_eq_Suc)

lemma readBytes_4: "readBytes f off 4 = [fdata f off, fdata f (off + 1), fdata f (off + 2), fdata f (off + 3)]"
  by (simp add: readBytes_def upt_rec numeral_eq_Suc)

lemma readView_cases:
  assumes "off + n \<le> mappedSize"
  shows "readView mappedSize f off n
           = (if pageEnd (fsize f) < off + n then None else Some (viewBytes f off n))"
  using assms le_pageEnd [of mappedSize] by (auto simp: readView_def)

paragraph \<open>Mapped files stay in the directory\<close>

text \<open>
  No operation here removes a file: in the fresh directory, and after every
  \<^verbatim>\<open>mapFile\<close>, \<^verbatim>\<open>loadBlock\<close> and \<^verbatim>\<open>writeBlock\<close> from it, a file with a live mapping is
  in the directory, so that a view with a size always has a file behind it.
\<close>

lemma liveMapping_setSlots:
  "liveMapping (setSlots db t l) t' i
     = (if t' = t then (if i < length l then l ! i else None) else liveMapping db t' i)"
  by (cases t; cases t') (simp_all add: liveMapping_def slots_def setSlots_def)

lemma mappedFilesExist_freshDB: "mappedFilesExist freshDB"
  by (simp add: mappedFilesExist_def liveMapping_def slots_def freshDB_def)

lemma list_update_same: "l ! i = v \<Longrightarrow> l[i := v] = l"
  by auto

lemma mapFile_result:
  assumes "mapFile db i t = (db1, r)"
  shows "db1 = setSlots db t
           ((if length (slots db t) \<le> i
             then slots db t @ replicate (i + 10 - length (slots db t)) None else slots db t)
            [i := r])"
proof (cases "length (slots db t) \<le> i")
  case True
  with assms show ?thesis
    unfolding mapFile_def Let_def
    by (auto simp: list_update_same split: option.splits if_splits)
next
  case False
  with assms show ?thesis
    unfolding mapFile_def Let_def
    by (auto simp: list_update_same split: option.splits if_splits)
qed

lemma mapFile_liveMapping:
  assumes "mapFile db i t = (db1, r)"
  shows "liveMapping db1 t' j = (if t' = t \<and> j = i then r else liveMapping db t' j)"
proof -
  let ?list1 = "if length (slots db t) \<le> i
                then slots db t @ replicate (i + 10 - length (slots db t)) None else slots db t"
  have l: "(if j < length ?list1 then ?list1 ! j else None) = liveMapping db t j" for j
    by (auto simp: liveMapping_def nth_append)
  have i: "i < length ?list1" by simp
  note db1 = mapFile_result [OF assms]
  show ?thesis
  proof (cases "t' = t")
    case False
    then show ?thesis by (simp add: db1 liveMapping_setSlots)
  next
    case True
    show ?thesis
    proof (cases "j = i")
      case True
      with \<open>t' = t\<close> i show ?thesis
        unfolding db1 liveMapping_setSlots by simp
    next
      case False
      with \<open>t' = t\<close> l [of j] show ?thesis
        unfolding db1 liveMapping_setSlots by (simp split: if_splits)
    qed
  qed
qed

lemma mapFile_file:
  assumes "mapFile db i t = (db1, Some df)" and "mappedFilesExist db"
  shows "blocksDir db (t, i) \<noteq> None"
proof (cases "liveMapping db t i")
  case None
  with mapFile_viewSize [OF assms(1)] show ?thesis
    by (auto simp: viewSize_def split: option.splits)
next
  case (Some a)
  from assms(2) have "liveMapping db t i = None \<or> blocksDir db (t, i) \<noteq> None"
    unfolding mappedFilesExist_def by blast
  with Some show ?thesis by simp
qed

lemma mappedFilesExist_mapFile:
  assumes "mappedFilesExist db" and "mapFile db i t = (db1, r)"
  shows "mappedFilesExist db1"
proof -
  from mapFile_fields(1) [OF assms(2)] have dir: "blocksDir db1 = blocksDir db" .
  have "r = None \<or> blocksDir db (t, i) \<noteq> None"
    using mapFile_file [OF _ assms(1)] assms(2) by (cases r) auto
  with assms(1) show ?thesis
    unfolding mappedFilesExist_def dir mapFile_liveMapping [OF assms(2)] by auto
qed

lemma mappedFilesExist_loadBlock:
  assumes "mappedFilesExist db" and "loadBlock H db pos t bh = Inr (db1, v)"
  shows "mappedFilesExist db1"
proof -
  from assms(2) obtain r where "mapFile db (nFile pos) t = (db1, r)"
    unfolding loadBlock_def Let_def
    by (auto split: if_splits option.splits prod.splits)
  with assms(1) show ?thesis by (rule mappedFilesExist_mapFile)
qed

lemma mappedFilesExist_more:
  assumes "mappedFilesExist db"
    and "\<forall>t i. liveMapping db1 t i = None \<or> liveMapping db1 t i = liveMapping db t i"
    and "\<forall>k. blocksDir db k \<noteq> None \<longrightarrow> blocksDir db1 k \<noteq> None"
  shows "mappedFilesExist db1"
  unfolding mappedFilesExist_def
proof (intro allI)
  fix t i
  from assms(1) have "liveMapping db t i = None \<or> blocksDir db (t, i) \<noteq> None"
    unfolding mappedFilesExist_def by blast
  moreover from assms(2) have "liveMapping db1 t i = None \<or> liveMapping db1 t i = liveMapping db t i"
    by blast
  moreover from assms(3) have "blocksDir db (t, i) \<noteq> None \<longrightarrow> blocksDir db1 (t, i) \<noteq> None"
    by blast
  ultimately show "liveMapping db1 t i = None \<or> blocksDir db1 (t, i) \<noteq> None"
    by auto
qed

lemma hasGrown_liveMapping:
  assumes "(if t = ForwardBlock then fileHasGrown db i else revertFileHasGrown db i) = Inr db1"
  shows "liveMapping db1 t' j = None \<or> liveMapping db1 t' j = liveMapping db t' j"
  using assms
  by (cases t; cases t')
     (auto simp: fileHasGrown_def revertFileHasGrown_def liveMapping_def slots_def
        nth_list_update split: if_splits)

lemma mappedFilesExist_growOnce:
  assumes "mappedFilesExist db" and "growOnce db i t fs = Inr (db1, fs1)"
  shows "mappedFilesExist db1"
proof -
  let ?db0 = "db\<lparr>logDebug := logDebug db @ [NeedsToBeResized t i]\<rparr>"
  from assms(2) obtain db2 f df where
    g: "(if t = ForwardBlock then fileHasGrown ?db0 i else revertFileHasGrown ?db0 i) = Inr db2"
    and f: "blocksDir db2 (t, i) = Some f"
    and m: "mapFile (db2\<lparr>blocksDir := (blocksDir db2)((t, i) \<mapsto> resize_file f (fs + chunkSize t))\<rparr>) i t
              = (db1, Some df)"
    by (auto simp: growOnce_def Let_def split: sum.splits option.splits if_splits prod.splits)
  let ?db3 = "db2\<lparr>blocksDir := (blocksDir db2)((t, i) \<mapsto> resize_file f (fs + chunkSize t))\<rparr>"
  have d: "blocksDir db2 = blocksDir db"
    using hasGrown_fields(1) [OF g] by simp
  have l0: "liveMapping ?db0 t' j = liveMapping db t' j" for t' j
    by (simp add: liveMapping_def slots_def)
  have l3: "liveMapping ?db3 t' j = liveMapping db2 t' j" for t' j
    by (simp add: liveMapping_def slots_def)
  have "mappedFilesExist ?db3"
  proof (rule mappedFilesExist_more [OF assms(1)])
    show "\<forall>t' j. liveMapping ?db3 t' j = None \<or> liveMapping ?db3 t' j = liveMapping db t' j"
      using hasGrown_liveMapping [OF g] unfolding l3 l0 by blast
    show "\<forall>k. blocksDir db k \<noteq> None \<longrightarrow> blocksDir ?db3 k \<noteq> None"
      using d by simp
  qed
  then show ?thesis using m by (rule mappedFilesExist_mapFile)
qed

lemma mappedFilesExist_growFile:
  assumes "growFile db i t need fs = Inr (db1, fs1)" and "mappedFilesExist db"
  shows "mappedFilesExist db1"
  using assms
proof (induction db i t need fs rule: growFile.induct)
  case (1 db i t need fs)
  note unfold = growFile.simps [of db i t need fs]
  show ?case
  proof (cases "fs \<le> need")
    case False
    with "1.prems" unfold show ?thesis by simp
  next
    case True
    with "1.prems" unfold obtain db2 fs2 where
      g: "growOnce db i t fs = Inr (db2, fs2)" and rest: "growFile db2 i t need fs2 = Inr (db1, fs1)"
      by (auto split: sum.splits)
    from "1.IH" [OF True g refl rest mappedFilesExist_growOnce [OF "1.prems"(2) g]]
    show ?thesis .
  qed
qed

lemma writeFrame_slots:
  assumes "writeFrame magic H db block i t bh fileSize = Inr (db', pos', w)"
  shows "slots db' t' = slots db t'"
    and "\<forall>k. blocksDir db k \<noteq> None \<longrightarrow> blocksDir db' k \<noteq> None"
  using assms
  by (auto simp: writeFrame_def Let_def slots_def split: option.splits if_splits)

lemma mappedFilesExist_writeBlock:
  assumes "mappedFilesExist db" and "writeBlock magic H db block pos t bh = Inr (db', pos', w)"
  shows "mappedFilesExist db'"
proof -
  from assms(2) obtain newFile db1 db2 db3 df db4 fileSize i where
    sel: "selectFile db (length block) pos t = (newFile, db1)"
    and st: "(if newFile \<or> (t = RevertBlock \<and> nUndoSize (vinfoBlockFile db1 ! i) = 0)
         then startNewFile db1 t i (length block) else Inr db1) = Inr db2"
    and mf: "mapFile db2 i t = (db3, Some df)"
    and g: "growFile db3 i t (u32 (recordedSize db1 t i + length block + 8
                                 + (if t = ForwardBlock then 0 else 32))) (filesize df)
          = Inr (db4, fileSize)"
    and wf: "writeFrame magic H db4 block i t bh fileSize = Inr (db', pos', w)"
    by (rule writeBlock_stages)
  have l1: "liveMapping db1 t' j = liveMapping db t' j" for t' j
    using selectFile_facts(2) [OF sel, of t'] by (simp add: liveMapping_def)
  have 1: "mappedFilesExist db1"
    using selectFile_facts(1) [OF sel] l1
    by (intro mappedFilesExist_more [OF assms(1)]) simp_all
  have 2: "mappedFilesExist db2"
  proof (cases "newFile \<or> (t = RevertBlock \<and> nUndoSize (vinfoBlockFile db1 ! i) = 0)")
    case False
    with st 1 show ?thesis by simp
  next
    case True
    with st have s: "startNewFile db1 t i (length block) = Inr db2" by simp
    have "liveMapping db2 t' j = liveMapping db1 t' j" for t' j
      using startNewFile_facts(4) [OF s, of t'] by (simp add: liveMapping_def)
    with startNewFile_dir [OF s] show ?thesis
      by (intro mappedFilesExist_more [OF 1]) simp_all
  qed
  from 2 mf have 3: "mappedFilesExist db3" by (rule mappedFilesExist_mapFile)
  from g 3 have 4: "mappedFilesExist db4" by (rule mappedFilesExist_growFile)
  have "liveMapping db' t' j = liveMapping db4 t' j" for t' j
    using writeFrame_slots(1) [OF wf, of t'] by (simp add: liveMapping_def)
  with writeFrame_slots(2) [OF wf] show ?thesis
    by (intro mappedFilesExist_more [OF 4]) simp_all
qed

lemma viewSize_file:
  assumes "mappedFilesExist db" and "viewSize db t i = Some vsize"
  shows "blocksDir db (t, i) \<noteq> None"
proof (cases "liveMapping db t i")
  case None
  with assms(2) show ?thesis
    by (auto simp: viewSize_def split: option.splits)
next
  case (Some df)
  from assms(1) have "liveMapping db t i = None \<or> blocksDir db (t, i) \<noteq> None"
    unfolding mappedFilesExist_def by blast
  with Some show ?thesis by simp
qed

paragraph \<open>The outcome of a read\<close>

text \<open>
  C6, as claimed: a read addressed to a missing file returns an empty view rather
  than an error. In the fresh directory no file exists, and both the block read and
  the undo read at position \<open>(0, 8)\<close> end in the error \<^verbatim>\<open>Failed to memmap block\<close>.
\<close>

theorem loadBlock_missing_file_is_error:
  "blocksDir freshDB (ForwardBlock, 0) = None
   \<and> blocksDir freshDB (RevertBlock, 0) = None
   \<and> loadBlock toyHash freshDB \<lparr>nFile = 0, nPos = 8\<rparr> ForwardBlock None = Inl FailedToMemmap
   \<and> loadBlock toyHash freshDB \<lparr>nFile = 0, nPos = 8\<rparr> RevertBlock (Some (hashOf 1))
       = Inl FailedToMemmap"
  by (simp add: loadBlock_def mapFile_def freshDB_def slots_def setSlots_def Let_def)

lemma loadBlock_decided:
  assumes "(t = ForwardBlock) = (bh = None)" and "noWrap db pos t"
  shows "loadBlock H db pos t bh =
     (if nPos pos < 4 then Inl DatabaseCorruption
      else
        (case viewSize db t (nFile pos) of
           None \<Rightarrow> Inl FailedToMemmap
         | Some vsize \<Rightarrow>
             if vsize \<le> nPos pos then Inl PositionOutsideOfFile
             else
               (case blocksDir db (t, nFile pos) of
                  None \<Rightarrow> Inl MemoryFault
                | Some f \<Rightarrow>
                    if pageEnd (fsize f) < nPos pos then Inl MemoryFault
                    else if vsize < nPos pos + declaredLength f pos + (if bh = None then 0 else 32)
                    then Inl BlockBiggerThanFile
                    else if bh \<noteq> None \<and> pageEnd (fsize f) < nPos pos + declaredLength f pos + 32
                    then Inl MemoryFault
                    else if (case bh of None \<Rightarrow> False
                             | Some hash \<Rightarrow> checksumAt f pos \<noteq> H (hash @ payloadAt f pos))
                    then Inl ChecksumMismatch
                    else Inr (fst (mapFile db (nFile pos) t),
                              \<lparr>bufFile = (t, nFile pos), bufBegin = nPos pos,
                               bufEnd = nPos pos + declaredLength f pos\<rparr>))))"
proof -
  obtain db1 m where mf: "mapFile db (nFile pos) t = (db1, m)"
    by (cases "mapFile db (nFile pos) t")
  note vs = mapFile_viewSize [OF mf, symmetric]
  have dir: "blocksDir db1 = blocksDir db"
    using mapFile_fields(1) [OF mf] .
  let ?rhs = "(if nPos pos < 4 then Inl DatabaseCorruption
      else
        (case viewSize db t (nFile pos) of
           None \<Rightarrow> Inl FailedToMemmap
         | Some vsize \<Rightarrow>
             if vsize \<le> nPos pos then Inl PositionOutsideOfFile
             else
               (case blocksDir db (t, nFile pos) of
                  None \<Rightarrow> Inl MemoryFault
                | Some f \<Rightarrow>
                    if pageEnd (fsize f) < nPos pos then Inl MemoryFault
                    else if vsize < nPos pos + declaredLength f pos + (if bh = None then 0 else 32)
                    then Inl BlockBiggerThanFile
                    else if bh \<noteq> None \<and> pageEnd (fsize f) < nPos pos + declaredLength f pos + 32
                    then Inl MemoryFault
                    else if (case bh of None \<Rightarrow> False
                             | Some hash \<Rightarrow> checksumAt f pos \<noteq> H (hash @ payloadAt f pos))
                    then Inl ChecksumMismatch
                    else Inr (fst (mapFile db (nFile pos) t),
                              \<lparr>bufFile = (t, nFile pos), bufBegin = nPos pos,
                               bufEnd = nPos pos + declaredLength f pos\<rparr>))))"
  show ?thesis
  proof (cases "nPos pos < 4")
    case True
    then show ?thesis by (simp add: loadBlock_def)
  next
    case ge4: False
    show ?thesis
    proof (cases m)
      case None
      with vs have "viewSize db t (nFile pos) = None" by simp
      with None mf ge4 show ?thesis by (simp add: loadBlock_def)
    next
      case (Some df)
      with vs have v: "viewSize db t (nFile pos) = Some (filesize df)" by simp
      show ?thesis
      proof (cases "filesize df \<le> nPos pos")
        case True
        with Some mf ge4 v show ?thesis by (simp add: loadBlock_def)
      next
        case inside: False
        show ?thesis
        proof (cases "blocksDir db (t, nFile pos)")
          case None
          with Some mf ge4 v inside dir show ?thesis by (simp add: loadBlock_def)
        next
          case fl: (Some f)
          let ?len = "declaredLength f pos"
          have "readView (filesize df) f (nPos pos - 4) 4
                 = (if pageEnd (fsize f) < nPos pos - 4 + 4 then None
                    else Some (viewBytes f (nPos pos - 4) 4))"
            using ge4 inside by (intro readView_cases) simp
          then have rl: "readView (filesize df) f (nPos pos - 4) 4
                 = (if pageEnd (fsize f) < nPos pos then None
                    else Some (viewBytes f (nPos pos - 4) 4))"
            using ge4 by simp
          from assms(2) fl have nw: "nPos pos + ?len + 32 < 4294967296"
            by (simp add: noWrap_def)
          have d: "le32toh (viewBytes f (nPos pos - 4) 4) = ?len"
            by (simp add: declaredLength_def)
          show ?thesis
          proof (cases "pageEnd (fsize f) < nPos pos")
            case True
            with Some mf ge4 v inside dir fl rl show ?thesis
              by (simp add: loadBlock_def)
          next
            case readable: False
            show ?thesis
            proof (cases bh)
              case None
              have u: "u32 (nPos pos + ?len) = nPos pos + ?len"
                using nw by (simp add: u32_def)
              show ?thesis
                unfolding loadBlock_def Let_def
                using Some mf ge4 v inside dir fl rl readable None u
                by (simp add: d)
            next
              case hash: (Some hash)
              with assms(1) have t: "t \<noteq> ForwardBlock" by simp
              have u: "u32 (nPos pos + ?len + 32) = nPos pos + ?len + 32"
                using nw by (simp add: u32_def)
              show ?thesis
              proof (cases "filesize df < nPos pos + ?len + 32")
                case True
                then show ?thesis
                  unfolding loadBlock_def Let_def
                  using Some mf ge4 v inside dir fl rl readable hash u
                  by (simp add: d)
              next
                case fits: False
                have rp: "readView (filesize df) f (nPos pos) ?len
                       = (if pageEnd (fsize f) < nPos pos + ?len then None
                          else Some (payloadAt f pos))"
                  unfolding payloadAt_def using fits by (intro readView_cases) simp
                have rc: "readView (filesize df) f (nPos pos + ?len) 32
                       = (if pageEnd (fsize f) < nPos pos + ?len + 32 then None
                          else Some (checksumAt f pos))"
                  unfolding checksumAt_def using fits by (intro readView_cases) simp
                have L: "loadBlock H db pos t bh =
                    (case readView (filesize df) f (nPos pos) ?len of
                       None \<Rightarrow> Inl MemoryFault
                     | Some payload \<Rightarrow>
                         (case readView (filesize df) f (nPos pos + ?len) 32 of
                            None \<Rightarrow> Inl MemoryFault
                          | Some hashChecksum \<Rightarrow>
                              if hashChecksum = H (hash @ payload)
                              then Inr (db1, \<lparr>bufFile = (t, nFile pos), bufBegin = nPos pos,
                                             bufEnd = nPos pos + ?len\<rparr>)
                              else Inl ChecksumMismatch))"
                  unfolding loadBlock_def Let_def
                  using Some mf ge4 inside dir fl rl readable hash u fits t
                  by (simp add: d cong: option.case_cong if_cong)
                have R: "?rhs =
                    (if pageEnd (fsize f) < nPos pos + ?len + 32 then Inl MemoryFault
                     else if checksumAt f pos \<noteq> H (hash @ payloadAt f pos)
                     then Inl ChecksumMismatch
                     else Inr (db1, \<lparr>bufFile = (t, nFile pos), bufBegin = nPos pos,
                                     bufEnd = nPos pos + ?len\<rparr>))"
                  using ge4 v inside fl readable hash fits mf by simp
                show ?thesis
                  unfolding L R rp rc by auto
              qed
            qed
          qed
        qed
      qed
    qed
  qed
qed

lemma loadBlockFile_view:
  "snd (loadBlockFile db i) =
     (case viewSize db ForwardBlock i of
        None \<Rightarrow> None
      | Some vsize \<Rightarrow> Some \<lparr>bufFile = (ForwardBlock, i), bufBegin = 0, bufEnd = vsize - 1\<rparr>)"
proof -
  obtain db1 m where mf: "mapFile db i ForwardBlock = (db1, m)"
    by (cases "mapFile db i ForwardBlock")
  from mapFile_viewSize [OF mf] mf show ?thesis
    by (cases m) (simp_all add: loadBlockFile_def)
qed

text \<open>
  C6, amended. Where the 32-bit sum does not wrap, the result of a read is decided by
  the size of the view the mapper hands out (the size of the live mapping of the
  file, else the size of the file) and by the bytes of the file. The read fails with
  the error of the code when the position is below 4; when the file cannot be
  mapped, being missing or empty with no mapping of it alive (\<^verbatim>\<open>Failed to memmap block\<close>,
  an error and not an empty view); when the position is at or beyond the size of the
  view; when the position plus the declared length (plus the 32 bytes of the checksum
  for an undo read) is beyond the size of the view; or when the checksum of an undo
  read differs. Otherwise it returns the view of the declared length. The one other
  outcome is a memory fault, when the file has become shorter than a mapping of it
  that is still alive and a byte to be read lies beyond the last page of the file.
  The whole-file read \<^verbatim>\<open>loadBlockFile\<close> is the one that answers a file that cannot be
  mapped with the empty view.
\<close>

theorem loadBlock_fails_exactly:
  assumes "(t = ForwardBlock) = (bh = None)" and "noWrap db pos t"
  shows "(nPos pos < 4 \<longrightarrow> loadBlock H db pos t bh = Inl DatabaseCorruption)
   \<and> (4 \<le> nPos pos \<and> viewSize db t (nFile pos) = None
        \<longrightarrow> loadBlock H db pos t bh = Inl FailedToMemmap)
   \<and> (\<forall>vsize. 4 \<le> nPos pos \<and> viewSize db t (nFile pos) = Some vsize \<and> vsize \<le> nPos pos
        \<longrightarrow> loadBlock H db pos t bh = Inl PositionOutsideOfFile)
   \<and> (\<forall>vsize f. 4 \<le> nPos pos \<and> viewSize db t (nFile pos) = Some vsize \<and> nPos pos < vsize
              \<and> blocksDir db (t, nFile pos) = Some f
        \<longrightarrow> loadBlock H db pos t bh =
             (if pageEnd (fsize f) < nPos pos then Inl MemoryFault
              else if vsize < nPos pos + declaredLength f pos + (if bh = None then 0 else 32)
              then Inl BlockBiggerThanFile
              else if bh \<noteq> None \<and> pageEnd (fsize f) < nPos pos + declaredLength f pos + 32
              then Inl MemoryFault
              else if (case bh of None \<Rightarrow> False
                       | Some hash \<Rightarrow> checksumAt f pos \<noteq> H (hash @ payloadAt f pos))
              then Inl ChecksumMismatch
              else Inr (fst (mapFile db (nFile pos) t),
                        \<lparr>bufFile = (t, nFile pos), bufBegin = nPos pos,
                         bufEnd = nPos pos + declaredLength f pos\<rparr>)))
   \<and> snd (loadBlockFile db i) =
       (case viewSize db ForwardBlock i of
          None \<Rightarrow> None
        | Some vsize \<Rightarrow> Some \<lparr>bufFile = (ForwardBlock, i), bufBegin = 0, bufEnd = vsize - 1\<rparr>)"
proof (intro conjI allI impI)
  note d = loadBlock_decided [OF assms, of H]
  show "loadBlock H db pos t bh = Inl DatabaseCorruption" if "nPos pos < 4"
    using d that by simp
  show "loadBlock H db pos t bh = Inl FailedToMemmap"
    if "4 \<le> nPos pos \<and> viewSize db t (nFile pos) = None"
    using d that by simp
  show "loadBlock H db pos t bh = Inl PositionOutsideOfFile"
    if "4 \<le> nPos pos \<and> viewSize db t (nFile pos) = Some vsize \<and> vsize \<le> nPos pos" for vsize
    using d that by simp
  show "loadBlock H db pos t bh =
             (if pageEnd (fsize f) < nPos pos then Inl MemoryFault
              else if vsize < nPos pos + declaredLength f pos + (if bh = None then 0 else 32)
              then Inl BlockBiggerThanFile
              else if bh \<noteq> None \<and> pageEnd (fsize f) < nPos pos + declaredLength f pos + 32
              then Inl MemoryFault
              else if (case bh of None \<Rightarrow> False
                       | Some hash \<Rightarrow> checksumAt f pos \<noteq> H (hash @ payloadAt f pos))
              then Inl ChecksumMismatch
              else Inr (fst (mapFile db (nFile pos) t),
                        \<lparr>bufFile = (t, nFile pos), bufBegin = nPos pos,
                         bufEnd = nPos pos + declaredLength f pos\<rparr>))"
    if "4 \<le> nPos pos \<and> viewSize db t (nFile pos) = Some vsize \<and> nPos pos < vsize
              \<and> blocksDir db (t, nFile pos) = Some f" for vsize f
    using d that by simp
  show "snd (loadBlockFile db i) =
       (case viewSize db ForwardBlock i of
          None \<Rightarrow> None
        | Some vsize \<Rightarrow> Some \<lparr>bufFile = (ForwardBlock, i), bufBegin = 0, bufEnd = vsize - 1\<rparr>)"
    by (rule loadBlockFile_view)
qed

theorem loadBlock_fails_exactly_witness:
  "((ForwardBlock = ForwardBlock) = ((None :: uint256 option) = None))
   \<and> noWrap (directoryWith strayByteFile) \<lparr>nFile = 0, nPos = 8\<rparr> ForwardBlock
   \<and> loadBlock toyHash (directoryWith strayByteFile) \<lparr>nFile = 0, nPos = 8\<rparr> ForwardBlock None
       = Inr (fst (mapFile (directoryWith strayByteFile) 0 ForwardBlock),
              \<lparr>bufFile = (ForwardBlock, 0), bufBegin = 8, bufEnd = 88\<rparr>)
   \<and> snd (loadBlockFile (directoryWith strayByteFile) 5) = None
   \<and> noWrap (directoryWith emptyFile) \<lparr>nFile = 0, nPos = 8\<rparr> ForwardBlock
   \<and> loadBlock toyHash (directoryWith emptyFile) \<lparr>nFile = 0, nPos = 8\<rparr> ForwardBlock None
       = Inl FailedToMemmap
   \<and> snd (loadBlockFile (directoryWith emptyFile) 0) = None"
proof -
  have a: "(ForwardBlock = ForwardBlock) = ((None :: uint256 option) = None)"
    by simp
  have d: "declaredLength strayByteFile \<lparr>nFile = 0, nPos = 8\<rparr> = 80"
    "declaredLength emptyFile \<lparr>nFile = 0, nPos = 8\<rparr> = 0"
    by (simp_all add: declaredLength_def viewBytes_4 le32toh_def strayByteFile_def emptyFile_def)
  have n: "noWrap (directoryWith strayByteFile) \<lparr>nFile = 0, nPos = 8\<rparr> ForwardBlock"
    "noWrap (directoryWith emptyFile) \<lparr>nFile = 0, nPos = 8\<rparr> ForwardBlock"
    by (simp_all add: noWrap_def directoryWith_def d)
  have v: "viewSize (directoryWith strayByteFile) ForwardBlock 0 = Some 128"
    "viewSize (directoryWith strayByteFile) ForwardBlock 5 = None"
    "viewSize (directoryWith emptyFile) ForwardBlock 0 = None"
    by (simp_all add: viewSize_def liveMapping_def directoryWith_def freshDB_def slots_def
          strayByteFile_def emptyFile_def)
  have f: "blocksDir (directoryWith strayByteFile) (ForwardBlock, 0) = Some strayByteFile"
    "pageEnd (fsize strayByteFile) = 4096"
    by (simp_all add: directoryWith_def strayByteFile_def pageEnd_def)
  from loadBlock_fails_exactly [OF a n(1), of toyHash 5]
    loadBlock_fails_exactly [OF a n(2), of toyHash 0] a n
  show ?thesis
    by (simp add: f d v)
qed

subsection \<open>Scanning the block files\<close>

lemma memchr_unfold:
  "0 < n \<Longrightarrow> memchr mappedSize f buf c n =
     (case readView mappedSize f buf 1 of
        None \<Rightarrow> Inl MemoryFault
      | Some b \<Rightarrow> if b = [c] then Inr (Some buf) else memchr mappedSize f (Suc buf) c (n - 1))"
  by (cases n) (simp_all split: option.splits)

lemma readView_byte:
  "readView mappedSize f b (Suc 0) =
     (if min (pageEnd mappedSize) (pageEnd (fsize f)) < Suc b then None
      else Some [if b < fsize f then fdata f b else 0])"
  by (simp add: readView_def viewBytes_def)

lemma scan_strayByteFile:
  "scanBlockFile 0xf9 strayByteFile 127 128 0 0 (nullFileInfo, [])
     = Inr (nullFileInfo\<lparr>nBlocks := 1, nSize := 88\<rparr>, [\<lparr>nFile = 0, nPos = 8\<rparr>])"
proof -
  have m1: "memchr 128 strayByteFile 0 0xf9 31 = Inr (Some 0)"
    by (simp add: memchr_unfold readView_byte pageEnd_def strayByteFile_def)
  have m2: "memchr 128 strayByteFile 88 0xf9 9 = Inr None"
    by (simp add: memchr_unfold readView_byte pageEnd_def strayByteFile_def)
  have len: "readView 128 strayByteFile 4 4 = Some [80, 0, 0, 0]"
    by (simp add: readView_def pageEnd_def viewBytes_4 strayByteFile_def)
  have rest: "scanBlockFile 0xf9 strayByteFile 127 128 0 88 (info, added) = Inr (info, added)"
    for info added
    by (subst scanBlockFile.simps) (simp add: m2)
  show ?thesis
    by (subst scanBlockFile.simps) (simp add: m1 len le32toh_def rest u32_def nullFileInfo_def)
qed

lemma scan_lateFrameFile:
  "scanBlockFile 0xf9 lateFrameFile 199 200 0 0 (nullFileInfo, []) = Inr (nullFileInfo, [])"
proof -
  have m: "memchr 200 lateFrameFile 0 0xf9 49 = Inr None"
    by (simp add: memchr_unfold readView_byte pageEnd_def lateFrameFile_def)
  show ?thesis
    by (subst scanBlockFile.simps) (simp add: m)
qed

lemma no_magic_in_strayByteFile: "readBytes strayByteFile i 4 \<noteq> mainnetMagic"
  by (simp add: readBytes_4 strayByteFile_def mainnetMagic_def)

text \<open>
  C7. The scan is claimed to look for the 4-byte magic and to hand on a position
  exactly at the matches whose length is at least 80. \<^verbatim>\<open>memchr\<close> looks for one byte, the
  first of the magic, and only in the first quarter of what is left of the file.

  \<open>strayByteFile\<close> holds the magic nowhere; the scan takes the byte at offset 0 for a
  match, reads the length 80 behind it and hands the position \<open>(0, 8)\<close> to the
  validation engine. \<open>lateFrameFile\<close> holds a frame with the magic and the length 80
  at offset 100 of 200; the scan searches the first 49 bytes only and hands on
  nothing.
\<close>

theorem LoadExternalBlockFile_matches_one_byte:
  "(case LoadExternalBlockFile mainnetMagic (directoryWith strayByteFile) [] \<lparr>nFile = 0, nPos = 0\<rparr> of
      Inl e \<Rightarrow> None
    | Inr (loaded, db, validation) \<Rightarrow> Some (loaded, validation))
     = Some (True, [\<lparr>nFile = 0, nPos = 8\<rparr>])
   \<and> (\<forall>i. readBytes strayByteFile i 4 \<noteq> mainnetMagic)
   \<and> (case LoadExternalBlockFile mainnetMagic (directoryWith lateFrameFile) [] \<lparr>nFile = 0, nPos = 0\<rparr> of
        Inl e \<Rightarrow> None
      | Inr (loaded, db, validation) \<Rightarrow> Some (loaded, validation))
     = Some (True, [])
   \<and> readBytes lateFrameFile 100 4 = mainnetMagic
   \<and> le32toh (readBytes lateFrameFile 104 4) = 80"
proof -
  have f: "fsize strayByteFile = 128" "fsize lateFrameFile = 200"
    by (simp_all add: strayByteFile_def lateFrameFile_def)
  have 1: "(case LoadExternalBlockFile mainnetMagic (directoryWith strayByteFile) []
                   \<lparr>nFile = 0, nPos = 0\<rparr> of
              Inl e \<Rightarrow> None
            | Inr (loaded, db, validation) \<Rightarrow> Some (loaded, validation))
           = Some (True, [\<lparr>nFile = 0, nPos = 8\<rparr>])"
    by (simp add: LoadExternalBlockFile_def loadBlockFile_def mapFile_def slots_def setSlots_def
          directoryWith_def freshDB_def Let_def mainnetMagic_def f scan_strayByteFile)
  have 2: "(case LoadExternalBlockFile mainnetMagic (directoryWith lateFrameFile) []
                   \<lparr>nFile = 0, nPos = 0\<rparr> of
              Inl e \<Rightarrow> None
            | Inr (loaded, db, validation) \<Rightarrow> Some (loaded, validation))
           = Some (True, [])"
    by (simp add: LoadExternalBlockFile_def loadBlockFile_def mapFile_def slots_def setSlots_def
          directoryWith_def freshDB_def Let_def mainnetMagic_def f
          scan_lateFrameFile [unfolded nullFileInfo_def] nullFileInfo_def)
  have 3: "readBytes lateFrameFile 100 4 = mainnetMagic"
    "le32toh (readBytes lateFrameFile 104 4) = 80"
    by (simp_all add: readBytes_4 le32toh_def lateFrameFile_def mainnetMagic_def)
  from 1 2 3 no_magic_in_strayByteFile show ?thesis
    by blast
qed

text \<open>
  The length is read without a test against the end of the view. In \<open>shortFile\<close> it
  lies across the end of the file; the bytes behind the end read as zero, the length
  is 80, and the position \<open>(0, 8)\<close>, which is beyond the file, is handed on.
\<close>

lemma LoadExternalBlockFile_reads_past_the_end:
  "(case LoadExternalBlockFile mainnetMagic (directoryWith shortFile) [] \<lparr>nFile = 0, nPos = 0\<rparr> of
      Inl e \<Rightarrow> None
    | Inr (loaded, db, validation) \<Rightarrow> Some (loaded, validation))
     = Some (True, [\<lparr>nFile = 0, nPos = 8\<rparr>])"
proof -
  have f: "fsize shortFile = 6"
    by (simp add: shortFile_def)
  have m: "readView 6 shortFile 0 (Suc 0) = Some [0xf9]"
    by (simp add: readView_byte pageEnd_def shortFile_def)
  have len: "readView 6 shortFile 4 4 = Some [80, 0, 0, 0]"
    by (simp add: readView_def pageEnd_def viewBytes_4 shortFile_def)
  have rest: "scanBlockFile 0xf9 shortFile 5 6 0 88 (info, added) = Inr (info, added)"
    for info added
    by (subst scanBlockFile.simps) simp
  have scan: "scanBlockFile 0xf9 shortFile 5 6 0 0 (nullFileInfo, [])
     = Inr (nullFileInfo\<lparr>nBlocks := 1, nSize := 88\<rparr>, [\<lparr>nFile = 0, nPos = 8\<rparr>])"
    by (subst scanBlockFile.simps) (simp add: m len le32toh_def rest u32_def nullFileInfo_def)
  show ?thesis
    by (simp add: LoadExternalBlockFile_def loadBlockFile_def mapFile_def slots_def setSlots_def
          directoryWith_def freshDB_def Let_def mainnetMagic_def f scan)
qed

subsection \<open>Loading the header index\<close>

lemma constructIndex_nFile:
  assumes "constructIndex s d = Inr (s1, p)"
  shows "CBlockIndex.nFile (memory s1 p) = CBlockIndex.nFile d"
  using assms
  by (auto simp: constructIndex_def split: sum.splits prod.splits option.splits)

lemma blockRows_Cons:
  "blockRows (r # rows) =
     (case rowKey r of
        None \<Rightarrow> []
      | Some key \<Rightarrow>
          if fst key = DB_BLOCK_INDEX
          then (case rowValue r of None \<Rightarrow> [] | Some d \<Rightarrow> d # blockRows rows)
          else [])"
  by (auto simp: blockRows_def split: option.splits)

lemma loadRows_maxFile:
  assumes "loadRows rows s m0 = Inr (True, s1, m)"
  shows "m = fold (\<lambda>d m. max (CBlockIndex.nFile d) m) (blockRows rows) m0"
  using assms
proof (induction rows arbitrary: s m0)
  case Nil
  then show ?case by (simp add: blockRows_def)
next
  case (Cons r rows)
  show ?case
  proof (cases "rowKey r")
    case None
    with Cons.prems show ?thesis by (simp add: blockRows_Cons)
  next
    case (Some key)
    show ?thesis
    proof (cases "fst key = DB_BLOCK_INDEX")
      case False
      with Some Cons.prems show ?thesis by (simp add: blockRows_Cons)
    next
      case True
      from Some True Cons.prems obtain d where d: "rowValue r = Some d"
        by (cases "rowValue r") simp_all
      from Some True d Cons.prems obtain s2 p where
        c: "constructIndex s d = Inr (s2, p)"
        and rest: "loadRows rows s2 (max (CBlockIndex.nFile (memory s2 p)) m0) = Inr (True, s1, m)"
        by (auto split: sum.splits)
      from Cons.IH [OF rest] constructIndex_nFile [OF c] Some True d
      show ?thesis by (simp add: blockRows_Cons)
    qed
  qed
qed

lemma length_resizeSlots [simp]: "length (resizeSlots l n) = n"
  by (simp add: resizeSlots_def)

lemma mapFile_grows:
  assumes "length (slots db t) \<le> i"
  shows "length (slots (fst (mapFile db i t)) t) = i + 10"
  using assms
  by (auto simp: mapFile_def Let_def slots_def setSlots_def split: option.splits)

text \<open>
  C9. When \<^verbatim>\<open>CacheAllBlockInfos\<close> returns true, both slot vectors of the file mapper
  have the length of the largest file number of the rows, not one more; the next
  \<^verbatim>\<open>mapFile\<close> for that file number finds the vector too short and resizes it to the
  file number plus 10.
\<close>

theorem CacheAllBlockInfos_slots:
  assumes "CacheAllBlockInfos iteration rows s cs db = Some (Inr (True, s', cs', db'))"
  shows "length (datafiles db') = nat (largestFile rows)
     \<and> length (revertDatafiles db') = nat (largestFile rows)
     \<and> length (slots (fst (mapFile db' (nat (largestFile rows)) t)) t) = nat (largestFile rows) + 10"
proof -
  from assms obtain s1 maxFile where
    l: "loadRows rows s 0 = Inr (True, s1, maxFile)"
    and db': "db' = db\<lparr>datafiles := resizeSlots (datafiles db) (nat maxFile),
                       revertDatafiles := resizeSlots (revertDatafiles db) (nat maxFile)\<rparr>"
    by (auto simp: CacheAllBlockInfos_def Let_def
          split: sum.splits prod.splits bool.splits option.splits)
  from loadRows_maxFile [OF l] have m: "maxFile = largestFile rows"
    by (simp add: largestFile_def)
  have len: "length (datafiles db') = nat (largestFile rows)"
    "length (revertDatafiles db') = nat (largestFile rows)"
    using db' m by simp_all
  then have "length (slots db' t) \<le> nat (largestFile rows)"
    by (simp add: slots_def)
  from mapFile_grows [OF this] len show ?thesis
    by simp
qed

theorem CacheAllBlockInfos_slots_witness:
  "\<exists>s' cs' db'.
     CacheAllBlockInfos rev exampleRows emptyStore emptyChainSet freshDB
       = Some (Inr (True, s', cs', db'))
     \<and> largestFile exampleRows = 2
     \<and> length (datafiles db') = nat (largestFile exampleRows)
     \<and> length (revertDatafiles db') = nat (largestFile exampleRows)
     \<and> length (slots (fst (mapFile db' (nat (largestFile exampleRows)) ForwardBlock)) ForwardBlock)
          = nat (largestFile exampleRows) + 10"
proof -
  have "(case CacheAllBlockInfos rev exampleRows emptyStore emptyChainSet freshDB of
           Some (Inr (r, s', cs', db')) \<Rightarrow> r | _ \<Rightarrow> False)"
    by code_simp
  then obtain s' cs' db' where
    c: "CacheAllBlockInfos rev exampleRows emptyStore emptyChainSet freshDB
          = Some (Inr (True, s', cs', db'))"
    by (auto split: option.splits sum.splits prod.splits)
  have l: "largestFile exampleRows = 2"
    by code_simp
  from CacheAllBlockInfos_slots [OF c, of ForwardBlock] c l show ?thesis
    by blast
qed

end
